(* ===== verification/Prelude.thy ===== *)
theory Prelude
  imports Main "HOL-Library.AList" "HOL-Library.FSet" "HOL-Library.Word"
    "HOL-Library.Char_ord" "HOL-Library.List_Lexorder" "HOL-Library.Product_Lexorder"
    "HOL-Library.Multiset"
begin

text \<open>
  Shared vocabulary of the development: the panics of Go as values, the string functions of the
  Go standard library that the controller uses, Go string maps (with \<open>nil\<close> kept apart from
  the empty map), and the generic lemmas and lemma collections used by the component theories.
\<close>

section \<open>Lemma collections\<close>

named_theorems panic_simps \<open>evaluation of the panic-propagating combinator\<close>
named_theorems go_map_simps \<open>reading after writing Go string maps\<close>
named_theorems split_on_simps \<open>behaviour of the single-character split\<close>

section \<open>Panics\<close>

text \<open>
  A Go function returns, panics, or never returns. A computation that can do the latter two has
  type \<open>go_panic + 'a\<close>: \<open>Inl\<close> is the panic (\<open>Diverges\<close> when a loop never ends), which \<open>bindP\<close>
  propagates.
\<close>

datatype go_panic =
    NilDereference
  | FailedTypeAssertion
  | SliceBoundsOutOfRange
  | IndexOutOfRange
  | Diverges

type_synonym 'a may_panic = "go_panic + 'a"

definition bindP :: "'a may_panic \<Rightarrow> ('a \<Rightarrow> 'b may_panic) \<Rightarrow> 'b may_panic" where
  "bindP m f = (case m of Inl p \<Rightarrow> Inl p | Inr a \<Rightarrow> f a)"

text \<open>Evaluation takes the first computation before it looks at the continuation.\<close>

declare bindP_def [code_unfold]

lemma bindP_simps [simp, panic_simps]:
  "bindP (Inl p) f = Inl p"
  "bindP (Inr a) f = f a"
  by (simp_all add: bindP_def)

lemma bindP_eq_Inr [panic_simps]:
  "bindP m f = Inr b \<longleftrightarrow> (\<exists>a. m = Inr a \<and> f a = Inr b)"
  by (cases m) simp_all

lemma bindP_eq_Inl [panic_simps]:
  "bindP m f = Inl p \<longleftrightarrow> m = Inl p \<or> (\<exists>a. m = Inr a \<and> f a = Inl p)"
  by (cases m) auto

lemma isl_bindP [panic_simps]:
  "isl (bindP m f) \<longleftrightarrow> isl m \<or> (\<exists>a. m = Inr a \<and> isl (f a))"
  by (cases m) simp_all

lemma bindP_assoc: "bindP (bindP m f) g = bindP m (\<lambda>a. bindP (f a) g)"
  by (cases m) simp_all

text \<open>Dereferencing a pointer: \<open>nil\<close> is \<open>None\<close>.\<close>

definition deref :: "'a option \<Rightarrow> 'a may_panic" where
  "deref p = (case p of None \<Rightarrow> Inl NilDereference | Some a \<Rightarrow> Inr a)"

lemma deref_simps [simp, panic_simps]:
  "deref None = Inl NilDereference"
  "deref (Some a) = Inr a"
  by (simp_all add: deref_def)

text \<open>A loop modelled by a partial function: \<open>None\<close> is "does not return".\<close>

definition returns :: "'a option \<Rightarrow> 'a may_panic" where
  "returns r = (case r of None \<Rightarrow> Inl Diverges | Some a \<Rightarrow> Inr a)"

lemma returns_simps [simp, panic_simps]:
  "returns None = Inl Diverges"
  "returns (Some a) = Inr a"
  by (simp_all add: returns_def)

text \<open>\<open>xs[:n]\<close> for an \<open>n\<close> that the caller has bounded by the length, or by zero, from one side only.\<close>

definition slice_to :: "'a list \<Rightarrow> int \<Rightarrow> 'a list may_panic" where
  "slice_to xs n =
     (if 0 \<le> n \<and> n \<le> int (length xs) then Inr (take (nat n) xs) else Inl SliceBoundsOutOfRange)"

lemma slice_to_Inr [panic_simps]:
  "0 \<le> n \<Longrightarrow> n \<le> int (length xs) \<Longrightarrow> slice_to xs n = Inr (take (nat n) xs)"
  by (simp add: slice_to_def)

text \<open>A computed result, split into its value and the state it comes with.\<close>

lemma Inr_pair_eq: "\<not> isl x \<Longrightarrow> fst (projr x) = a \<Longrightarrow> x = Inr (a, snd (projr x))"
  by (cases x) auto

lemma Inr_cases:
  "(case x of Inl p \<Rightarrow> False | Inr y \<Rightarrow> P y) \<Longrightarrow> x = Inr (projr x) \<and> P (projr x)"
  by (cases x) auto

lemma Inr_eq: "\<not> isl x \<Longrightarrow> x = Inr (projr x)"
  by (cases x) auto

lemma pair_eq: "fst x = a \<Longrightarrow> x = (a, snd x)"
  by (cases x) simp

section \<open>Strings\<close>

text \<open>\<open>strings.Split\<close> with a one-character separator.\<close>

fun split_on :: "char \<Rightarrow> string \<Rightarrow> string list" where
  "split_on c [] = [[]]"
| "split_on c (x # xs) =
     (if x = c then [] # split_on c xs
      else (case split_on c xs of [] \<Rightarrow> [[x]] | w # ws \<Rightarrow> (x # w) # ws))"

lemma split_on_not_Nil [simp, split_on_simps]: "split_on c s \<noteq> []"
  by (induction s) (auto split: list.splits)

lemma split_on_no_sep [split_on_simps]: "c \<notin> set s \<Longrightarrow> split_on c s = [s]"
  by (induction s) auto

lemma split_on_pieces: "w \<in> set (split_on c s) \<Longrightarrow> c \<notin> set w"
proof (induction s arbitrary: w)
  case Nil
  then show ?case by simp
next
  case (Cons x xs)
  obtain p ps where ps: "split_on c xs = p # ps"
    by (cases "split_on c xs") simp_all
  then show ?case using Cons by (auto split: if_splits)
qed

lemma split_on_append [split_on_simps]:
  "split_on c (a @ c # b) = split_on c a @ split_on c b"
proof (induction a)
  case Nil
  then show ?case by simp
next
  case (Cons x a)
  then show ?case by (cases "split_on c a") auto
qed

text \<open>\<open>strings.HasPrefix\<close>, \<open>strings.Replace(s, old, new, 1)\<close>.\<close>

definition has_prefix :: "string \<Rightarrow> string \<Rightarrow> bool" where
  "has_prefix s p = (take (length p) s = p)"

fun replace_first :: "string \<Rightarrow> string \<Rightarrow> string \<Rightarrow> string" where
  "replace_first [] old new = (if old = [] then new else [])"
| "replace_first (x # xs) old new =
     (if has_prefix (x # xs) old then new @ drop (length old) (x # xs)
      else x # replace_first xs old new)"

lemma has_prefix_append [simp]: "has_prefix (p @ s) p"
  by (simp add: has_prefix_def)

lemma has_prefixE:
  assumes "has_prefix s p"
  obtains r where "s = p @ r"
  using assms unfolding has_prefix_def by (metis append_take_drop_id)

lemma replace_first_prefix: "replace_first (old @ s) old new = new @ s"
proof (cases "old @ s")
  case Nil
  then show ?thesis by simp
next
  case (Cons x xs)
  have "has_prefix (x # xs) old" using Cons [symmetric] by simp
  moreover have "drop (length old) (x # xs) = s" using Cons [symmetric] by simp
  ultimately show ?thesis unfolding Cons by simp
qed

text \<open>
  \<open>strconv.ParseUint(s, 10, 64)\<close>: the empty string, a non-digit and a value that needs more
  than 64 bits are errors (\<open>None\<close>).
\<close>

definition is_digit :: "char \<Rightarrow> bool" where
  "is_digit c = (c \<in> set ''0123456789'')"

definition digit_val :: "char \<Rightarrow> nat" where
  "digit_val c = length (takeWhile (\<lambda>d. d \<noteq> c) ''0123456789'')"

definition digits_val :: "string \<Rightarrow> nat" where
  "digits_val s = foldl (\<lambda>n c. 10 * n + digit_val c) 0 s"

definition parse_uint64 :: "string \<Rightarrow> nat option" where
  "parse_uint64 s =
     (if s = [] \<or> \<not> list_all is_digit s then None
      else if int (digits_val s) < 2 ^ 64 then Some (digits_val s) else None)"

text \<open>
  \<open>strconv.Atoi\<close> on a string of digits with the error dropped: a value that does not fit an
  \<open>int64\<close> is clamped to the largest one, as \<open>ParseInt\<close> does when it reports a range
  error.
\<close>

definition atoi_digits :: "string \<Rightarrow> nat" where
  "atoi_digits s = nat (min (int (digits_val s)) (2 ^ 63 - 1))"

section \<open>Go string maps\<close>

text \<open>
  \<open>map[string]string\<close>: \<open>None\<close> is the \<open>nil\<close> map, which reads like the empty map but is
  different from it for \<open>reflect.DeepEqual\<close> and cannot be written.
\<close>

type_synonym str_map = "(string \<rightharpoonup> string) option"

definition map_lookup :: "str_map \<Rightarrow> string \<Rightarrow> string option" where
  "map_lookup m k = (case m of None \<Rightarrow> None | Some f \<Rightarrow> f k)"

text \<open>\<open>m[k]\<close>: the zero value when the key is missing.\<close>

definition map_get :: "str_map \<Rightarrow> string \<Rightarrow> string" where
  "map_get m k = (case map_lookup m k of None \<Rightarrow> [] | Some v \<Rightarrow> v)"

definition map_has :: "str_map \<Rightarrow> string \<Rightarrow> bool" where
  "map_has m k = (map_lookup m k \<noteq> None)"

text \<open>\<open>if m == nil { m = make(map[string]string) }\<close>, and the write that follows it.\<close>

definition ensure_map :: "str_map \<Rightarrow> str_map" where
  "ensure_map m = (case m of None \<Rightarrow> Some Map.empty | Some f \<Rightarrow> Some f)"

definition map_put :: "str_map \<Rightarrow> string \<Rightarrow> string \<Rightarrow> str_map" where
  "map_put m k v = (case ensure_map m of None \<Rightarrow> None | Some f \<Rightarrow> Some (f(k \<mapsto> v)))"

lemma map_lookup_simps [simp, go_map_simps]:
  "map_lookup None k = None"
  "map_lookup (Some f) k = f k"
  by (simp_all add: map_lookup_def)

lemma map_lookup_ensure [simp, go_map_simps]: "map_lookup (ensure_map m) k = map_lookup m k"
  by (cases m) (simp_all add: ensure_map_def)

lemma map_lookup_put [simp, go_map_simps]:
  "map_lookup (map_put m k v) k' = (if k' = k then Some v else map_lookup m k')"
  by (cases m) (auto simp: map_put_def ensure_map_def)

lemma map_get_put [simp, go_map_simps]:
  "map_get (map_put m k v) k' = (if k' = k then v else map_get m k')"
  by (simp add: map_get_def)

lemma map_has_put [simp, go_map_simps]:
  "map_has (map_put m k v) k' = (k' = k \<or> map_has m k')"
  by (simp add: map_has_def)

lemma map_put_not_nil [simp, go_map_simps]: "map_put m k v \<noteq> None"
  by (cases m) (simp_all add: map_put_def ensure_map_def)

lemma ensure_map_not_nil [simp, go_map_simps]: "ensure_map m \<noteq> None"
  by (cases m) (simp_all add: ensure_map_def)

section \<open>Lists\<close>

lemma length_filter_partition:
  "length xs = length (filter P xs) + length (filter (\<lambda>x. \<not> P x) xs)"
  by (induction xs) auto

lemma filter_take_le: "length (filter P (take n xs)) \<le> length (filter P xs)"
proof -
  have "filter P xs = filter P (take n xs) @ filter P (drop n xs)"
    by (metis append_take_drop_id filter_append)
  then show ?thesis by simp
qed

lemma sorted_wrt_take_drop:
  assumes "sorted_wrt R xs" "x \<in> set (take n xs)" "y \<in> set (drop n xs)"
  shows "R x y"
  using assms by (metis append_take_drop_id sorted_wrt_append)

lemma mset_take_drop: "mset (take n xs) + mset (drop n xs) = mset xs"
  by (metis append_take_drop_id mset_append)

end
