(* ===== verification/K8s_Types.thy ===== *)
theory K8s_Types
  imports Prelude
begin

text \<open>
  The data the controller works on: the Inplaceu API types of \<open>api/v1/inplaceu_types.go\<close>, and
  of the Kubernetes API types the fields that the controller reads or writes.  Integers keep
  their width (\<open>int32\<close> is a \<open>32 word\<close> read by \<open>sint\<close>, \<open>int64\<close> a
  \<open>64 word\<close>); a Go \<open>int\<close> that only counts list elements is an \<open>int\<close>.  Times and
  durations are integers in nanoseconds, the zero \<open>time.Time\<close> is 0.

  Functions of packages outside the repository are the fields of \<open>pod_lib\<close>, \<open>meta_lib\<close> and similar
  records (pure functions) and of \<open>api\<close> (calls to the API server, which transform an abstract
  world).  All are arguments of the definitions that use them.
\<close>

section \<open>Scalars\<close>

type_synonym int32 = "32 word"
type_synonym int64 = "64 word"
type_synonym time = int
type_synonym duration = int

definition is_zero_time :: "time \<Rightarrow> bool" where
  "is_zero_time t = (t = 0)"

abbreviation millisecond :: duration where "millisecond \<equiv> 1000000"
abbreviation second :: duration where "second \<equiv> 1000000000"
abbreviation minute :: duration where "minute \<equiv> 60 * second"

section \<open>Errors\<close>

text \<open>
  An \<open>error\<close> value: an API status error, an error made by \<open>fmt.Errorf\<close>, an error that
  formats another one with \<open>%v\<close> (which keeps its text and drops its identity), and the
  aggregate of several errors.
\<close>

datatype api_reason = NotFound | Conflict | AlreadyExists | Invalid | OtherReason string

datatype go_error =
    ApiError api_reason
  | Errorf string
  | Formatted string go_error
  | Aggregate "go_error list"

definition is_not_found :: "go_error \<Rightarrow> bool" where
  "is_not_found e = (e = ApiError NotFound)"

definition is_conflict :: "go_error \<Rightarrow> bool" where
  "is_conflict e = (e = ApiError Conflict)"

definition is_already_exists :: "go_error \<Rightarrow> bool" where
  "is_already_exists e = (e = ApiError AlreadyExists)"

definition is_invalid :: "go_error \<Rightarrow> bool" where
  "is_invalid e = (e = ApiError Invalid)"

definition new_aggregate :: "go_error list \<Rightarrow> go_error option" where
  "new_aggregate es = (if es = [] then None else Some (Aggregate es))"

section \<open>Pods\<close>

record owner_ref =
  or_api_version :: string
  or_kind :: string
  or_name :: string
  or_uid :: string
  or_controller :: "bool option"
  or_block_deletion :: "bool option"

datatype pod_phase =
    PodPending | PodRunning | PodSucceeded | PodFailed | PodUnknown | PodPhaseOther string

record pod_condition =
  pc_type :: string
  pc_status :: string
  pc_last_transition :: time

record container =
  ct_name :: string
  ct_image :: string

record container_status =
  cs_name :: string
  cs_image_id :: string
  cs_restart_count :: int32

record pod =
  pod_name :: string
  pod_namespace :: string
  pod_uid :: string
  pod_rv :: string
  pod_labels :: str_map
  pod_annotations :: str_map
  pod_deletion :: "time option"
  pod_creation :: time
  pod_owners :: "owner_ref list"
  pod_node :: string
  pod_containers :: "container list"
  pod_phase :: pod_phase
  pod_conditions :: "pod_condition list"
  pod_container_statuses :: "container_status list"

section \<open>The Inplaceu resource\<close>

datatype int_or_string = IntVal int32 | StrVal string

text \<open>A label selector is only ever handed to the selector functions of the library.\<close>

type_synonym label_selector = string

record pod_template =
  tpl_labels :: str_map
  tpl_annotations :: str_map
  tpl_containers :: "container list"

record rolling_update =
  ru_max_unavailable :: "int_or_string option"
  ru_max_surge :: "int_or_string option"

record deployment_strategy =
  ds_type :: string
  ds_rolling_update :: "rolling_update option"

record inplaceu_spec =
  sp_replicas :: "int32 option"
  sp_selector :: "label_selector option"
  sp_template :: pod_template
  sp_strategy :: deployment_strategy
  sp_min_ready_seconds :: int32
  sp_revision_history_limit :: "int32 option"
  sp_paused :: bool
  sp_progress_deadline_seconds :: "int32 option"

record condition =
  cd_type :: string
  cd_status :: string
  cd_last_transition :: time
  cd_message :: go_error

record inplaceu_status =
  st_observed_generation :: int64
  st_replicas :: int32
  st_updated_replicas :: int32
  st_ready_replicas :: int32
  st_available_replicas :: int32
  st_unavailable_replicas :: int32
  st_terminating_replicas :: "int32 option"
  st_conditions :: "condition list"
  st_collision_count :: "int32 option"
  st_update_revision :: string
  st_current_revision :: string

record inplaceu =
  iu_name :: string
  iu_namespace :: string
  iu_uid :: string
  iu_generation :: int64
  iu_deletion :: "time option"
  iu_labels :: str_map
  iu_annotations :: str_map
  iu_spec :: inplaceu_spec
  iu_status :: inplaceu_status

text \<open>Labels and annotations under which the controller keeps its own data.\<close>

definition InplaceuInstanceID :: string where
  "InplaceuInstanceID = ''batch.inplace.kubebuilder.io/inplaceu-instance-id''"

definition SpecifiedDeleteKey :: string where
  "SpecifiedDeleteKey = ''batch.inplace.kubebuilder.io/specified-delete''"

section \<open>Controller revisions\<close>

record revision =
  rev_name :: string
  rev_namespace :: string
  rev_uid :: string
  rev_rv :: string
  rev_owners :: "owner_ref list"
  rev_labels :: str_map
  rev_annotations :: str_map
  rev_data :: string
  rev_revision :: int64

section \<open>Requests\<close>

record request =
  req_namespace :: string
  req_name :: string

end
