(* ===== verification/External.thy ===== *)
theory External
  imports K8s_Types
begin

text \<open>
  The functions of other packages that the pod-level code calls, as records of functions, and the
  documented behaviour the properties rely on.  Nothing is assumed of a field beyond the hypotheses
  named here.
\<close>

section \<open>Pod helpers, percentages and sorting\<close>

text \<open>
  \<^item> \<open>is_pod_ready\<close>, \<open>is_pod_available\<close> (at a time), \<open>is_pod_active\<close>, \<open>active_pods_less\<close>:
    \<open>podutil.IsPodReady\<close>, \<open>podutil.IsPodAvailable\<close>, \<open>kubecontroller.IsPodActive\<close>,
    \<open>kubecontroller.ActivePods.Less\<close> of \<open>k8s.io/kubernetes\<close>;
  \<^item> \<open>scaled_value\<close>: \<open>intstr.GetValueFromIntOrPercent\<close> with its error dropped (the value is then
    0); arguments are the value, the total and the rounding direction;
  \<^item> \<open>sort_pods\<close>, \<open>sort_indexes\<close>: \<open>sort.Sort\<close> and \<open>sort.Slice\<close> with a given order.
\<close>

record pod_lib =
  is_pod_ready :: "pod \<Rightarrow> bool"
  is_pod_available :: "pod \<Rightarrow> int32 \<Rightarrow> time \<Rightarrow> bool"
  is_pod_active :: "pod \<Rightarrow> bool"
  active_pods_less :: "pod \<Rightarrow> pod \<Rightarrow> bool"
  scaled_value :: "int_or_string \<Rightarrow> int \<Rightarrow> bool \<Rightarrow> int"
  sort_pods :: "(pod \<Rightarrow> pod \<Rightarrow> bool) \<Rightarrow> pod list \<Rightarrow> pod list"
  sort_indexes :: "(nat \<Rightarrow> nat \<Rightarrow> bool) \<Rightarrow> nat list \<Rightarrow> nat list"

text \<open>
  The contract of package \<open>sort\<close>: the elements are rearranged, and when the order is a strict weak
  one, no element comes before a smaller one.  Equal elements may end up in any order.
\<close>

definition strict_weak :: "('a \<Rightarrow> 'a \<Rightarrow> bool) \<Rightarrow> bool" where
  "strict_weak lt \<longleftrightarrow>
     (\<forall>a b. lt a b \<longrightarrow> \<not> lt b a) \<and>
     (\<forall>a b c. \<not> lt a b \<longrightarrow> \<not> lt b c \<longrightarrow> \<not> lt a c)"

definition sort_contract :: "(('a \<Rightarrow> 'a \<Rightarrow> bool) \<Rightarrow> 'a list \<Rightarrow> 'a list) \<Rightarrow> bool" where
  "sort_contract srt \<longleftrightarrow>
     (\<forall>lt xs. mset (srt lt xs) = mset xs \<and>
        (strict_weak lt \<longrightarrow> sorted_wrt (\<lambda>a b. \<not> lt b a) (srt lt xs)))"

lemma sort_contract_mset: "sort_contract srt \<Longrightarrow> mset (srt lt xs) = mset xs"
  by (simp add: sort_contract_def)

lemma sort_contract_sorted:
  "sort_contract srt \<Longrightarrow> strict_weak lt \<Longrightarrow> sorted_wrt (\<lambda>a b. \<not> lt b a) (srt lt xs)"
  by (simp add: sort_contract_def)

lemma sort_contract_set: "sort_contract srt \<Longrightarrow> set (srt lt xs) = set xs"
  by (metis sort_contract_mset set_mset_mset)

lemma sort_contract_length: "sort_contract srt \<Longrightarrow> length (srt lt xs) = length xs"
  by (metis sort_contract_mset size_mset)

text \<open>
  A concrete sort that meets the contract: the insertion sort that package \<open>sort\<close> itself runs on
  up to twelve elements.
\<close>

fun insert_by :: "('a \<Rightarrow> 'a \<Rightarrow> bool) \<Rightarrow> 'a \<Rightarrow> 'a list \<Rightarrow> 'a list" where
  "insert_by lt x [] = [x]"
| "insert_by lt x (y # ys) =
     (if lt y x then y # insert_by lt x ys else x # y # ys)"

definition insertion_sort :: "('a \<Rightarrow> 'a \<Rightarrow> bool) \<Rightarrow> 'a list \<Rightarrow> 'a list" where
  "insertion_sort lt xs = foldr (insert_by lt) xs []"

lemma mset_insert_by [simp]: "mset (insert_by lt x ys) = add_mset x (mset ys)"
  by (induction ys) auto

lemma set_insert_by [simp]: "set (insert_by lt x ys) = insert x (set ys)"
  by (induction ys) auto

lemma sorted_insert_by:
  assumes "strict_weak lt" "sorted_wrt (\<lambda>a b. \<not> lt b a) ys"
  shows "sorted_wrt (\<lambda>a b. \<not> lt b a) (insert_by lt x ys)"
  using assms(2)
proof (induction ys)
  case Nil
  then show ?case by simp
next
  case (Cons y ys)
  have asym: "lt a b \<Longrightarrow> \<not> lt b a" and
    ntrans: "\<not> lt a b \<Longrightarrow> \<not> lt b c \<Longrightarrow> \<not> lt a c" for a b c
    using assms(1) unfolding strict_weak_def by blast+
  show ?case
  proof (cases "lt y x")
    case True
    with Cons asym show ?thesis by auto
  next
    case False
    with Cons.prems have "\<not> lt z x" if "z \<in> set (y # ys)" for z
      using that ntrans [of z y x] by auto
    with Cons.prems False show ?thesis by auto
  qed
qed

lemma insertion_sort_contract: "sort_contract insertion_sort"
proof -
  have "mset (foldr (insert_by lt) xs []) = mset xs" for lt and xs :: "'a list"
    by (induction xs) simp_all
  moreover have "sorted_wrt (\<lambda>a b. \<not> lt b a) (foldr (insert_by lt) xs [])"
    if "strict_weak lt" for lt and xs :: "'a list"
    by (induction xs) (simp_all add: sorted_insert_by that)
  ultimately show ?thesis by (simp add: sort_contract_def insertion_sort_def)
qed

section \<open>Object metadata\<close>

text \<open>
  \<^item> \<open>controller_of\<close>: \<open>metav1.GetControllerOf\<close> on the owner references;
  \<^item> \<open>namespaced_name\<close>: \<open>types.NamespacedName.String\<close>;
  \<^item> \<open>as_selector\<close>, \<open>selector_empty\<close>, \<open>selector_matches\<close>: \<open>metav1.LabelSelectorAsSelector\<close>
    and the methods of \<open>labels.Selector\<close>;
  \<^item> \<open>group_of_version\<close>: the group that \<open>schema.ParseGroupVersion\<close> reads, \<open>None\<close> for its error;
  \<^item> \<open>pod_from_template\<close>, \<open>new_controller_ref\<close>: \<open>kubecontroller.GetPodFromTemplate\<close> and
    \<open>metav1.NewControllerRef\<close> with the kind of the Inplaceu resource.
\<close>

type_synonym selector = string

record meta_lib =
  controller_of :: "owner_ref list \<Rightarrow> owner_ref option"
  namespaced_name :: "string \<Rightarrow> string \<Rightarrow> string"
  as_selector :: "label_selector option \<Rightarrow> go_error + selector"
  selector_empty :: "selector \<Rightarrow> bool"
  selector_matches :: "selector \<Rightarrow> str_map \<Rightarrow> bool"
  group_of_version :: "string \<Rightarrow> string option"
  pod_from_template :: "pod_template \<Rightarrow> inplaceu \<Rightarrow> owner_ref \<Rightarrow> pod"
  new_controller_ref :: "inplaceu \<Rightarrow> owner_ref"

text \<open>The documented behaviour of \<open>GetControllerOf\<close>: the first reference marked as controller.\<close>

definition controller_of_contract :: "meta_lib \<Rightarrow> bool" where
  "controller_of_contract M \<longleftrightarrow>
     (\<forall>refs. controller_of M refs = find (\<lambda>r. or_controller r = Some True) refs)"

definition ControllerKind_Group :: string where
  "ControllerKind_Group = ''batch.inplace.kubebuilder.io''"

definition ControllerKind_Kind :: string where
  "ControllerKind_Kind = ''Inplaceu''"

text \<open>\<open>inplaceutils.GetControllerKey\<close>, and \<open>req.String()\<close> for the same object.\<close>

definition GetControllerKey :: "meta_lib \<Rightarrow> inplaceu \<Rightarrow> string" where
  "GetControllerKey M iu = namespaced_name M (iu_namespace iu) (iu_name iu)"

definition request_key :: "meta_lib \<Rightarrow> request \<Rightarrow> string" where
  "request_key M req = namespaced_name M (req_namespace req) (req_name req)"

section \<open>Retries\<close>

text \<open>
  \<open>retry.RetryOnConflict(retry.DefaultBackoff, fn)\<close> is an argument of the definitions that use it.
  \<open>fn\<close> transforms a state and returns an error or nothing.  Documented behaviour: \<open>fn\<close> is called
  again while it fails with a conflict and attempts remain; any other result is returned.
\<close>

type_synonym 's attempt = "'s \<Rightarrow> go_error option \<times> 's"

fun attempts :: "nat \<Rightarrow> 's attempt \<Rightarrow> 's attempt" where
  "attempts 0 fn s = fn s"
| "attempts (Suc n) fn s =
     (case fn s of
        (Some e, s') \<Rightarrow> if is_conflict e then attempts n fn s' else (Some e, s')
      | (None, s') \<Rightarrow> (None, s'))"

definition retry_contract :: "('s attempt \<Rightarrow> 's attempt) \<Rightarrow> bool" where
  "retry_contract retry \<longleftrightarrow> (\<exists>n. \<forall>fn s. retry fn s = attempts n fn s)"

text \<open>\<open>retry.DefaultBackoff\<close> makes four attempts: the first and up to three more.\<close>

lemma attempts_contract: "retry_contract (attempts n)"
  by (auto simp: retry_contract_def)

text \<open>
  What holds after every call of \<open>fn\<close> holds after the retries, for the result they return: a rule
  with an invariant on the state between attempts.
\<close>

lemma attempts_rule:
  assumes inv: "\<And>s e s'. I s \<Longrightarrow> fn s = (Some e, s') \<Longrightarrow> is_conflict e \<Longrightarrow> I s'"
    and post: "\<And>s r s'. I s \<Longrightarrow> fn s = (r, s') \<Longrightarrow> Q r s'"
    and start: "I s"
    and run: "attempts n fn s = (r, s')"
  shows "Q r s'"
  using start run
proof (induction n arbitrary: s)
  case 0
  then show ?case using post by simp
next
  case (Suc n)
  obtain r1 s1 where fn: "fn s = (r1, s1)" by (cases "fn s")
  show ?case
  proof (cases "\<exists>e. r1 = Some e \<and> is_conflict e")
    case True
    then obtain e where e: "r1 = Some e" "is_conflict e" by blast
    then have "I s1" using inv [OF Suc.prems(1)] fn by simp
    moreover have "attempts n fn s1 = (r, s')" using Suc.prems(2) fn e by simp
    ultimately show ?thesis by (rule Suc.IH)
  next
    case False
    then have "r = r1 \<and> s' = s1" using Suc.prems(2) fn by (auto split: option.splits)
    with post [OF Suc.prems(1) fn] show ?thesis by simp
  qed
qed

lemma retry_rule:
  assumes "retry_contract retry"
    and "\<And>s e s'. I s \<Longrightarrow> fn s = (Some e, s') \<Longrightarrow> is_conflict e \<Longrightarrow> I s'"
    and "\<And>s r s'. I s \<Longrightarrow> fn s = (r, s') \<Longrightarrow> Q r s'"
    and "I s" and "retry fn s = (r, s')"
  shows "Q r s'"
proof -
  obtain n where "retry fn s = attempts n fn s"
    using assms(1) by (auto simp: retry_contract_def)
  with assms show ?thesis by (auto intro: attempts_rule [of I fn Q s n r s'])
qed

end
