(* ===== verification/Scale_Expectations.thy ===== *)
theory Scale_Expectations
  imports K8s_Types
begin

text \<open>
  \<open>internal/utils/expectations/scale_expection.go\<close>: the cache of pod creations and deletions a
  controller has issued and not yet seen come back through the informer.  The locale
  \<open>scale_expectation_store\<close> states what the pod event handler and the scale control rely on,
  over the set of pending names per key and action; the cache of the code provides it.
\<close>

section \<open>State and operations\<close>

datatype scale_action = Create | Delete

record controller_scale_expectations =
  objs_cache :: "scale_action \<rightharpoonup> string fset"
  first_unsatisfied :: time

type_synonym scale_cache = "string \<rightharpoonup> controller_scale_expectations"

definition NewScaleExpectations :: scale_cache where
  "NewScaleExpectations = Map.empty"

definition GetExpectations :: "scale_cache \<Rightarrow> string \<Rightarrow> (scale_action \<rightharpoonup> string fset) option" where
  "GetExpectations c key = (case c key of None \<Rightarrow> None | Some e \<Rightarrow> Some (objs_cache e))"

definition ExpectScale :: "scale_cache \<Rightarrow> string \<Rightarrow> scale_action \<Rightarrow> string \<Rightarrow> scale_cache" where
  "ExpectScale c key action name =
     (let e = (case c key of
                 None \<Rightarrow> \<lparr>objs_cache = Map.empty, first_unsatisfied = 0\<rparr>
               | Some e \<Rightarrow> e);
          s' = (case objs_cache e action of
                  Some s \<Rightarrow> finsert name s
                | None \<Rightarrow> {|name|})
      in c(key \<mapsto> e\<lparr>objs_cache := (objs_cache e)(action \<mapsto> s')\<rparr>))"

text \<open>The set stored for an action is there and has an element.\<close>

definition has_items :: "(scale_action \<rightharpoonup> string fset) \<Rightarrow> scale_action \<Rightarrow> bool" where
  "has_items objs a = (case objs a of None \<Rightarrow> False | Some s \<Rightarrow> s \<noteq> {||})"

definition ObserveScale :: "scale_cache \<Rightarrow> string \<Rightarrow> scale_action \<Rightarrow> string \<Rightarrow> scale_cache" where
  "ObserveScale c key action name =
     (case c key of
        None \<Rightarrow> c
      | Some e \<Rightarrow>
          (case objs_cache e action of
             None \<Rightarrow> c
           | Some s \<Rightarrow>
               (let objs = (objs_cache e)(action \<mapsto> s |-| {|name|})
                in if list_ex (has_items objs) [Create, Delete]
                   then c(key \<mapsto> e\<lparr>objs_cache := objs\<rparr>)
                   else c(key := None))))"

text \<open>
  Go iterates over the map of actions in an arbitrary order: \<open>create_first\<close> says which of the
  two it happens to visit first.  \<open>now\<close> and \<open>now'\<close> are the two clock readings, the one
  stored and the one inside \<open>time.Since\<close>.
\<close>

definition action_order :: "bool \<Rightarrow> scale_action list" where
  "action_order create_first = (if create_first then [Create, Delete] else [Delete, Create])"

definition SatisfiedExpectations ::
  "bool \<Rightarrow> time \<Rightarrow> time \<Rightarrow> scale_cache \<Rightarrow> string \<Rightarrow>
     (bool \<times> duration \<times> (scale_action \<times> string list) option) \<times> scale_cache" where
  "SatisfiedExpectations create_first now now' c key =
     (case c key of
        None \<Rightarrow> ((True, 0, None), c)
      | Some e \<Rightarrow>
          (case find (has_items (objs_cache e)) (action_order create_first) of
             Some a \<Rightarrow>
               (let e' = (if is_zero_time (first_unsatisfied e)
                          then e\<lparr>first_unsatisfied := now\<rparr> else e);
                    names = (case objs_cache e a of None \<Rightarrow> [] | Some s \<Rightarrow> sorted_list_of_fset s)
                in ((False, now' - first_unsatisfied e', Some (a, names)), c(key \<mapsto> e')))
           | None \<Rightarrow> ((True, 0, None), c(key := None))))"

definition DeleteExpectations :: "scale_cache \<Rightarrow> string \<Rightarrow> scale_cache" where
  "DeleteExpectations c key = c(key := None)"

section \<open>The interface\<close>

text \<open>
  The pending names per controller key and action are all a client can see of the store, apart
  from the time a check has been failing.
\<close>

locale scale_expectation_store =
  fixes expect :: "'s \<Rightarrow> string \<Rightarrow> scale_action \<Rightarrow> string \<Rightarrow> 's"
    and observe :: "'s \<Rightarrow> string \<Rightarrow> scale_action \<Rightarrow> string \<Rightarrow> 's"
    and drop_key :: "'s \<Rightarrow> string \<Rightarrow> 's"
    and satisfied :: "'s \<Rightarrow> string \<Rightarrow> bool"
    and pending :: "'s \<Rightarrow> string \<Rightarrow> scale_action \<Rightarrow> string fset"
  assumes pending_expect: "pending (expect s k a n) k' a' =
      (if k' = k \<and> a' = a then finsert n (pending s k a) else pending s k' a')"
    and pending_observe: "pending (observe s k a n) k' a' =
      (if k' = k \<and> a' = a then pending s k a |-| {|n|} else pending s k' a')"
    and pending_drop: "pending (drop_key s k) k' a' = (if k' = k then {||} else pending s k' a')"
    and satisfied_iff: "satisfied s k \<longleftrightarrow> (\<forall>a. pending s k a = {||})"
begin

definition expect_all :: "'s \<Rightarrow> string \<Rightarrow> scale_action \<Rightarrow> string list \<Rightarrow> 's" where
  "expect_all s k a ns = foldl (\<lambda>s n. expect s k a n) s ns"

definition observe_all :: "'s \<Rightarrow> string \<Rightarrow> scale_action \<Rightarrow> string list \<Rightarrow> 's" where
  "observe_all s k a ns = foldl (\<lambda>s n. observe s k a n) s ns"

lemma pending_expect_all:
  "pending (expect_all s k a ns) k' a' =
     (if k' = k \<and> a' = a then pending s k a |\<union>| fset_of_list ns else pending s k' a')"
  unfolding expect_all_def
  by (induction ns arbitrary: s) (auto simp: pending_expect)

lemma pending_observe_all:
  "pending (observe_all s k a ns) k' a' =
     (if k' = k \<and> a' = a then pending s k a |-| fset_of_list ns else pending s k' a')"
  unfolding observe_all_def
  by (induction ns arbitrary: s) (auto simp: pending_observe)

lemma not_satisfied_expect: "\<not> satisfied (expect s k a n) k"
  by (auto simp: satisfied_iff pending_expect intro: exI [of _ a])

lemma satisfied_other: "k' \<noteq> k \<Longrightarrow>
  satisfied (expect s k a n) k' = satisfied s k' \<and>
  satisfied (observe s k a n) k' = satisfied s k'"
  by (simp add: satisfied_iff pending_expect pending_observe)

text \<open>Rolling back an expectation that was not pending before.\<close>

lemma pending_rollback:
  "n |\<notin>| pending s k a \<Longrightarrow> pending (observe (expect s k a n) k a n) k' a' = pending s k' a'"
  by (auto simp: pending_expect pending_observe)

text \<open>A controller waits until everything it issued was observed, and no longer.\<close>

lemma satisfied_after_observing:
  assumes "satisfied s k"
  shows "satisfied (observe_all (expect_all s k a ns) k a ms) k \<longleftrightarrow> set ns \<subseteq> set ms"
proof -
  have "pending s k b = {||}" for b
    using assms by (simp add: satisfied_iff)
  then have "pending (observe_all (expect_all s k a ns) k a ms) k b =
      (if b = a then fset_of_list ns |-| fset_of_list ms else {||})" for b
    by (simp add: pending_observe_all pending_expect_all)
  moreover have "fset_of_list ns |-| fset_of_list ms = {||} \<longleftrightarrow> set ns \<subseteq> set ms"
    by (auto simp: fset_of_list.rep_eq fset_eq_iff)
  ultimately show ?thesis by (auto simp: satisfied_iff)
qed

end

section \<open>The cache provides it\<close>

definition pending_names :: "scale_cache \<Rightarrow> string \<Rightarrow> scale_action \<Rightarrow> string fset" where
  "pending_names c key a =
     (case c key of None \<Rightarrow> {||}
      | Some e \<Rightarrow> (case objs_cache e a of None \<Rightarrow> {||} | Some s \<Rightarrow> s))"

definition is_satisfied_scale :: "scale_cache \<Rightarrow> string \<Rightarrow> bool" where
  "is_satisfied_scale c key = fst (fst (SatisfiedExpectations True 0 0 c key))"

lemma has_items_pending:
  "c key = Some e \<Longrightarrow> has_items (objs_cache e) a \<longleftrightarrow> pending_names c key a \<noteq> {||}"
  by (auto simp: has_items_def pending_names_def split: option.splits)

lemma all_actions: "(\<forall>a. P a) \<longleftrightarrow> P Create \<and> P Delete"
  by (metis scale_action.exhaust)

lemma pending_names_ExpectScale:
  "pending_names (ExpectScale c k a n) k' a' =
     (if k' = k \<and> a' = a then finsert n (pending_names c k a) else pending_names c k' a')"
  by (auto simp: pending_names_def ExpectScale_def Let_def split: option.splits)

lemma no_items_pending:
  "\<not> list_ex (has_items objs) [Create, Delete] \<Longrightarrow>
     (case objs a of None \<Rightarrow> {||} | Some s \<Rightarrow> s) = {||}"
  by (cases a) (auto simp: has_items_def split: option.splits)

lemma pending_names_upd:
  "pending_names (c(k \<mapsto> e)) k' a =
     (if k' = k then (case objs_cache e a of None \<Rightarrow> {||} | Some s \<Rightarrow> s) else pending_names c k' a)"
  "pending_names (c(k := None)) k' a = (if k' = k then {||} else pending_names c k' a)"
  by (simp_all add: pending_names_def)

lemma pending_names_ObserveScale:
  "pending_names (ObserveScale c k a n) k' a' =
     (if k' = k \<and> a' = a then pending_names c k a |-| {|n|} else pending_names c k' a')"
proof (cases "c k")
  case None
  then show ?thesis by (simp add: ObserveScale_def pending_names_def)
next
  case (Some e)
  show ?thesis
  proof (cases "objs_cache e a")
    case None
    with Some show ?thesis by (simp add: ObserveScale_def pending_names_def)
  next
    case inner: (Some s)
    define objs where "objs = (objs_cache e)(a \<mapsto> s |-| {|n|})"
    have obj: "(case objs b of None \<Rightarrow> {||} | Some s \<Rightarrow> s) =
        (if b = a then pending_names c k a |-| {|n|} else pending_names c k b)" for b
      using Some inner by (simp add: objs_def pending_names_def)
    show ?thesis
    proof (cases "list_ex (has_items objs) [Create, Delete]")
      case True
      with Some inner obj show ?thesis
        by (simp add: ObserveScale_def objs_def [symmetric] Let_def pending_names_upd)
    next
      case False
      have "(if b = a then pending_names c k a |-| {|n|} else pending_names c k b) = {||}" for b
        using no_items_pending [OF False, of b] obj [of b] by simp
      from this [of a'] False Some inner show ?thesis
        by (auto simp: ObserveScale_def objs_def [symmetric] Let_def pending_names_upd)
    qed
  qed
qed

lemma find_action:
  "find P (action_order cf) = None \<longleftrightarrow> \<not> P Create \<and> \<not> P Delete"
  by (auto simp: action_order_def)

lemma SatisfiedExpectations_unfold:
  "SatisfiedExpectations cf now now' c k =
     (case c k of None \<Rightarrow> ((True, 0, None), c)
      | Some e \<Rightarrow>
         (if has_items (objs_cache e) Create \<or> has_items (objs_cache e) Delete
          then let t = (if is_zero_time (first_unsatisfied e) then now else first_unsatisfied e);
                   a = the (find (has_items (objs_cache e)) (action_order cf))
               in ((False, now' - t, Some (a, sorted_list_of_fset (pending_names c k a))),
                   c(k \<mapsto> e\<lparr>first_unsatisfied := t\<rparr>))
          else ((True, 0, None), c(k := None))))"
proof (cases "c k")
  case None
  then show ?thesis by (simp add: SatisfiedExpectations_def)
next
  case (Some e)
  show ?thesis
  proof (cases "find (has_items (objs_cache e)) (action_order cf)")
    case None
    then have "\<not> has_items (objs_cache e) Create \<and> \<not> has_items (objs_cache e) Delete"
      by (simp add: find_action)
    with Some None show ?thesis by (simp add: SatisfiedExpectations_def)
  next
    case inner: (Some a)
    then have items: "has_items (objs_cache e) Create \<or> has_items (objs_cache e) Delete"
      by (metis find_action option.distinct(1))
    have "has_items (objs_cache e) a" using inner by (auto simp: find_Some_iff)
    then obtain s where "objs_cache e a = Some s"
      by (auto simp: has_items_def split: option.splits)
    with Some inner items show ?thesis
      by (simp add: SatisfiedExpectations_def Let_def pending_names_def)
  qed
qed

lemma SatisfiedExpectations_fst:
  "fst (fst (SatisfiedExpectations cf now now' c k)) \<longleftrightarrow> (\<forall>a. pending_names c k a = {||})"
proof (cases "c k")
  case None
  then show ?thesis by (simp add: SatisfiedExpectations_unfold pending_names_def)
next
  case (Some e)
  then have "has_items (objs_cache e) a \<longleftrightarrow> pending_names c k a \<noteq> {||}" for a
    by (rule has_items_pending)
  with Some show ?thesis
    by (simp add: SatisfiedExpectations_unfold all_actions Let_def)
qed

lemma pending_names_Satisfied:
  "pending_names (snd (SatisfiedExpectations cf now now' c k)) = pending_names c"
proof (cases "c k")
  case None
  then show ?thesis by (simp add: SatisfiedExpectations_unfold)
next
  case (Some e)
  have items: "has_items (objs_cache e) a \<longleftrightarrow> pending_names c k a \<noteq> {||}" for a
    using Some by (rule has_items_pending)
  show ?thesis
  proof (cases "has_items (objs_cache e) Create \<or> has_items (objs_cache e) Delete")
    case True
    with Some show ?thesis
      by (auto simp: SatisfiedExpectations_unfold Let_def pending_names_def fun_eq_iff)
  next
    case False
    then have "\<forall>a. pending_names c k a = {||}" by (simp add: all_actions items)
    with False Some show ?thesis
      by (simp add: SatisfiedExpectations_unfold pending_names_upd fun_eq_iff)
  qed
qed

lemma pending_names_DeleteExpectations:
  "pending_names (DeleteExpectations c k) k' a = (if k' = k then {||} else pending_names c k' a)"
  by (simp add: pending_names_def DeleteExpectations_def)

lemmas pending_names_simps =
  pending_names_ExpectScale pending_names_ObserveScale pending_names_Satisfied
  pending_names_DeleteExpectations

interpretation scale_store:
  scale_expectation_store ExpectScale ObserveScale DeleteExpectations is_satisfied_scale
    pending_names
  by unfold_locales
    (simp_all add: pending_names_simps is_satisfied_scale_def SatisfiedExpectations_fst)

section \<open>Runs of operations\<close>

datatype scale_op =
    OpExpect string scale_action string
  | OpObserve string scale_action string
  | OpCheck bool time time string
  | OpDrop string

fun scale_exec :: "scale_op \<Rightarrow> scale_cache \<Rightarrow> scale_cache" where
  "scale_exec (OpExpect k a n) c = ExpectScale c k a n"
| "scale_exec (OpObserve k a n) c = ObserveScale c k a n"
| "scale_exec (OpCheck cf now now' k) c = snd (SatisfiedExpectations cf now now' c k)"
| "scale_exec (OpDrop k) c = DeleteExpectations c k"

text \<open>The specification: a set of pending names per key and action.\<close>

type_synonym pending_spec = "string \<Rightarrow> scale_action \<Rightarrow> string fset"

fun spec_exec :: "scale_op \<Rightarrow> pending_spec \<Rightarrow> pending_spec" where
  "spec_exec (OpExpect k a n) p = p(k := (p k)(a := finsert n (p k a)))"
| "spec_exec (OpObserve k a n) p = p(k := (p k)(a := p k a |-| {|n|}))"
| "spec_exec (OpCheck cf now now' k) p = p"
| "spec_exec (OpDrop k) p = p(k := (\<lambda>_. {||}))"

lemma scale_exec_refines: "pending_names (scale_exec x c) = spec_exec x (pending_names c)"
  by (cases x) (auto simp: pending_names_simps fun_eq_iff)

lemma scale_run_refines:
  "pending_names (fold scale_exec xs c) = fold spec_exec xs (pending_names c)"
  by (induction xs arbitrary: c) (simp_all add: scale_exec_refines)

subsection \<open>Reachable caches hold no empty entry\<close>

inductive scale_reachable :: "scale_cache \<Rightarrow> bool" where
  scale_init: "scale_reachable NewScaleExpectations"
| scale_step: "scale_reachable c \<Longrightarrow> scale_reachable (scale_exec x c)"

inductive_simps scale_reachable_simps: "scale_reachable c"

definition no_empty_entry :: "scale_cache \<Rightarrow> bool" where
  "no_empty_entry c \<longleftrightarrow> (\<forall>k. c k \<noteq> None \<longrightarrow> (\<exists>a. pending_names c k a \<noteq> {||}))"

lemma dom_scale_exec:
  "scale_exec x c k \<noteq> None \<Longrightarrow>
     c k \<noteq> None \<or> (\<exists>a n. x = OpExpect k a n)"
  by (cases x) (auto simp: ExpectScale_def ObserveScale_def SatisfiedExpectations_unfold
      DeleteExpectations_def Let_def split: option.splits if_splits)

lemma ObserveScale_entry:
  assumes "ObserveScale c k a n k \<noteq> None" "no_empty_entry c"
  shows "\<exists>a'. pending_names (ObserveScale c k a n) k a' \<noteq> {||}"
proof (cases "c k")
  case None
  with assms show ?thesis by (simp add: ObserveScale_def)
next
  case (Some e)
  show ?thesis
  proof (cases "objs_cache e a")
    case None
    with Some assms show ?thesis by (simp add: ObserveScale_def no_empty_entry_def)
  next
    case inner: (Some s)
    define objs where "objs = (objs_cache e)(a \<mapsto> s |-| {|n|})"
    have res: "ObserveScale c k a n =
        (if list_ex (has_items objs) [Create, Delete]
         then c(k \<mapsto> e\<lparr>objs_cache := objs\<rparr>) else c(k := None))"
      using Some inner by (simp add: ObserveScale_def objs_def Let_def)
    then have "list_ex (has_items objs) [Create, Delete]"
      using assms(1) by (auto split: if_splits)
    then obtain a' where "has_items objs a'" by auto
    with res \<open>list_ex (has_items objs) [Create, Delete]\<close> have
      "pending_names (ObserveScale c k a n) k a' \<noteq> {||}"
      by (auto simp: pending_names_upd has_items_def split: option.splits)
    then show ?thesis by blast
  qed
qed

lemma no_empty_entry_exec:
  assumes "no_empty_entry c"
  shows "no_empty_entry (scale_exec x c)"
  unfolding no_empty_entry_def
proof (intro allI impI)
  fix k
  assume k: "scale_exec x c k \<noteq> None"
  show "\<exists>a. pending_names (scale_exec x c) k a \<noteq> {||}"
  proof (cases "\<exists>a n. x = OpExpect k a n")
    case True
    then obtain a n where "x = OpExpect k a n" by blast
    then have "pending_names (scale_exec x c) k a \<noteq> {||}" by (simp add: pending_names_simps)
    then show ?thesis by blast
  next
    case False
    with k dom_scale_exec have "c k \<noteq> None" by blast
    with assms have ex: "\<exists>a. pending_names c k a \<noteq> {||}" by (auto simp: no_empty_entry_def)
    show ?thesis
    proof (cases x)
      case (OpExpect k' a n)
      with False ex show ?thesis by (auto simp: pending_names_simps)
    next
      case (OpObserve k' a n)
      show ?thesis
      proof (cases "k' = k")
        case True
        with OpObserve k assms ObserveScale_entry show ?thesis by simp
      next
        case False
        with OpObserve ex show ?thesis by (auto simp: pending_names_simps)
      qed
    next
      case OpCheck
      with ex show ?thesis by (simp add: pending_names_simps)
    next
      case (OpDrop k')
      with k have "k \<noteq> k'" by (auto simp: DeleteExpectations_def)
      with OpDrop ex show ?thesis by (simp add: pending_names_DeleteExpectations)
    qed
  qed
qed

lemma scale_reachable_no_empty: "scale_reachable c \<Longrightarrow> no_empty_entry c"
proof (induction rule: scale_reachable.induct)
  case scale_init
  then show ?case by (simp add: no_empty_entry_def NewScaleExpectations_def)
next
  case (scale_step c x)
  then show ?case by (simp add: no_empty_entry_exec)
qed

subsection \<open>How long a check has been failing\<close>

definition unsatisfied_since :: "scale_cache \<Rightarrow> string \<Rightarrow> time" where
  "unsatisfied_since c k = (case c k of None \<Rightarrow> 0 | Some e \<Rightarrow> first_unsatisfied e)"

text \<open>Every operation of a run leaves the key with something pending.\<close>

fun stays_pending :: "string \<Rightarrow> scale_cache \<Rightarrow> scale_op list \<Rightarrow> bool" where
  "stays_pending k c [] = True"
| "stays_pending k c (x # xs) =
     (scale_exec x c k \<noteq> None \<and> x \<noteq> OpDrop k \<and> stays_pending k (scale_exec x c) xs)"

lemma unsatisfied_since_exec:
  assumes "unsatisfied_since c k \<noteq> 0" "scale_exec x c k \<noteq> None"
  shows "unsatisfied_since (scale_exec x c) k = unsatisfied_since c k"
  using assms
  by (cases x) (auto simp: unsatisfied_since_def ExpectScale_def ObserveScale_def
      SatisfiedExpectations_unfold DeleteExpectations_def is_zero_time_def Let_def
      split: option.splits if_splits)

lemma unsatisfied_since_run:
  "unsatisfied_since c k \<noteq> 0 \<Longrightarrow> stays_pending k c xs \<Longrightarrow>
     unsatisfied_since (fold scale_exec xs c) k = unsatisfied_since c k"
proof (induction xs arbitrary: c)
  case Nil
  then show ?case by simp
next
  case (Cons x xs)
  then show ?case by (auto simp: unsatisfied_since_exec)
qed

lemma SatisfiedExpectations_duration:
  assumes "\<not> fst (fst (SatisfiedExpectations cf now now' c k))"
  shows "fst (snd (fst (SatisfiedExpectations cf now now' c k))) =
      now' - (if unsatisfied_since c k = 0 then now else unsatisfied_since c k)"
    and "unsatisfied_since (snd (SatisfiedExpectations cf now now' c k)) k =
      (if unsatisfied_since c k = 0 then now else unsatisfied_since c k)"
  using assms
  by (auto simp: SatisfiedExpectations_unfold unsatisfied_since_def is_zero_time_def Let_def
      split: option.splits if_splits)

section \<open>Properties\<close>

text \<open>
  C15: The scale expectation cache refines a set of pending pod names per controller key and action:
  after any run of expectations, observations, checks and deletions the pending names are those of
  the specification, and a check answers "satisfied" exactly when the specification has nothing
  pending for the key, whatever order Go visits the two actions in.
\<close>

theorem scale_expectations_refine_pending_sets:
  "pending_names (fold scale_exec xs NewScaleExpectations) = fold spec_exec xs (\<lambda>_ _. {||}) \<and>
   (fst (fst (SatisfiedExpectations cf now now' (fold scale_exec xs NewScaleExpectations) k))
      \<longleftrightarrow> (\<forall>a. fold spec_exec xs (\<lambda>_ _. {||}) k a = {||}))"
proof -
  have init: "pending_names NewScaleExpectations = (\<lambda>_ _. {||})"
    by (simp add: NewScaleExpectations_def pending_names_def fun_eq_iff)
  then show ?thesis by (simp add: SatisfiedExpectations_fst scale_run_refines)
qed

text \<open>
  In every reachable cache an entry for a key exists exactly while something is pending for it:
  the cache leaks no entry, and the cleaning branch at the end of \<open>SatisfiedExpectations\<close> never has
  anything to remove.
\<close>

theorem scale_reachable_entry_iff_pending:
  assumes "scale_reachable c"
  shows "(c k \<noteq> None \<longleftrightarrow> (\<exists>a. pending_names c k a \<noteq> {||})) \<and>
    (fst (fst (SatisfiedExpectations cf now now' c k)) \<longrightarrow>
      snd (SatisfiedExpectations cf now now' c k) = c)"
proof -
  have iff: "c k \<noteq> None \<longleftrightarrow> (\<exists>a. pending_names c k a \<noteq> {||})"
  proof
    assume "c k \<noteq> None"
    with scale_reachable_no_empty [OF assms] show "\<exists>a. pending_names c k a \<noteq> {||}"
      by (simp add: no_empty_entry_def)
  next
    assume "\<exists>a. pending_names c k a \<noteq> {||}"
    then show "c k \<noteq> None" by (auto simp: pending_names_def)
  qed
  moreover have "snd (SatisfiedExpectations cf now now' c k) = c"
    if "fst (fst (SatisfiedExpectations cf now now' c k))"
  proof -
    have "c k = None" using that iff by (simp add: SatisfiedExpectations_fst)
    then show ?thesis by (simp add: SatisfiedExpectations_def)
  qed
  ultimately show ?thesis by blast
qed

theorem scale_reachable_entry_iff_pending_witness:
  "ExpectScale NewScaleExpectations ''ns/web'' Create ''web-abcde'' ''ns/web'' \<noteq> None"
proof -
  have "scale_reachable (scale_exec (OpExpect ''ns/web'' Create ''web-abcde'') NewScaleExpectations)"
    by (intro scale_step scale_init)
  from scale_reachable_entry_iff_pending [OF this, of "''ns/web''" True 0 0]
  show ?thesis by (auto simp: pending_names_simps)
qed

text \<open>
  The duration a failing check reports is measured from the first failing check of the current
  waiting period: once a check at time \<open>now\<close> (not the zero time) has failed, a later failing check
  reports the time elapsed since then, whatever expectations and observations happened in between,
  as long as the key never ran empty.
\<close>

theorem scale_unsatisfied_duration_accumulates:
  assumes "unsatisfied_since c k = 0" and "now \<noteq> 0"
    and "\<not> fst (fst (SatisfiedExpectations cf now now1 c k))"
    and "stays_pending k (snd (SatisfiedExpectations cf now now1 c k)) xs"
    and "c' = fold scale_exec xs (snd (SatisfiedExpectations cf now now1 c k))"
    and "\<not> fst (fst (SatisfiedExpectations cf' now2 now3 c' k))"
  shows "fst (snd (fst (SatisfiedExpectations cf' now2 now3 c' k))) = now3 - now"
proof -
  have first: "unsatisfied_since (snd (SatisfiedExpectations cf now now1 c k)) k = now"
    using SatisfiedExpectations_duration(2) [OF assms(3)] assms(1) by simp
  then have "unsatisfied_since c' k = now"
    using unsatisfied_since_run assms(2,4,5) by simp
  with SatisfiedExpectations_duration(1) [OF assms(6)] assms(2) show ?thesis by simp
qed

theorem scale_unsatisfied_duration_accumulates_witness:
  "fst (snd (fst (SatisfiedExpectations True 70 75
     (ExpectScale (snd (SatisfiedExpectations True 20 21
        (ExpectScale NewScaleExpectations ''k'' Create ''p'') ''k'')) ''k'' Delete ''q'') ''k''))) = 55"
proof -
  let ?c = "ExpectScale NewScaleExpectations ''k'' Create ''p''"
  have "fst (snd (fst (SatisfiedExpectations True 70 75
     (fold scale_exec [OpExpect ''k'' Delete ''q''] (snd (SatisfiedExpectations True 20 21 ?c ''k'')))
      ''k''))) = 75 - 20"
    by (rule scale_unsatisfied_duration_accumulates [OF _ _ _ _ refl])
      (simp_all add: unsatisfied_since_def ExpectScale_def NewScaleExpectations_def
        SatisfiedExpectations_unfold has_items_def Let_def is_zero_time_def)
  then show ?thesis by simp
qed

end
