(* ===== verification/RV_Expectations.thy ===== *)
theory RV_Expectations
  imports K8s_Types
begin

text \<open>
  \<open>internal/utils/expectations/resource_version_expection.go\<close>: per object (by UID) the resource
  version the controller has written and must see in its cache before it acts on the object again.
  The locale \<open>rv_expectation_store\<close> states the contract over numeric versions.
\<close>

section \<open>State and operations\<close>

record object_cache_versions =
  ov_version :: string
  ov_first_unsatisfied :: time

type_synonym rv_cache = "string \<rightharpoonup> object_cache_versions"

definition NewResourceVersionExpectation :: rv_cache where
  "NewResourceVersionExpectation = Map.empty"

definition isResourceVersionNewer :: "string \<Rightarrow> string \<Rightarrow> bool" where
  "isResourceVersionNewer old new =
     (if length old = 0 then True
      else case parse_uint64 old of
             None \<Rightarrow> True
           | Some oldCount \<Rightarrow>
               (case parse_uint64 new of
                  None \<Rightarrow> False
                | Some newCount \<Rightarrow> newCount \<ge> oldCount))"

definition RVExpect :: "rv_cache \<Rightarrow> string \<Rightarrow> string \<Rightarrow> rv_cache" where
  "RVExpect c uid rv =
     (let v = (case c uid of
                 None \<Rightarrow> \<lparr>ov_version = [], ov_first_unsatisfied = 0\<rparr>
               | Some v \<Rightarrow> v)
      in if isResourceVersionNewer (ov_version v) rv
         then c(uid \<mapsto> v\<lparr>ov_version := rv\<rparr>)
         else c(uid \<mapsto> v))"

definition RVObserve :: "rv_cache \<Rightarrow> string \<Rightarrow> string \<Rightarrow> rv_cache" where
  "RVObserve c uid rv =
     (case c uid of
        None \<Rightarrow> c
      | Some v \<Rightarrow> if isResourceVersionNewer (ov_version v) rv then c(uid := None) else c)"

text \<open>\<open>now\<close> is the reading that may be stored, \<open>now'\<close> the one inside \<open>time.Since\<close>.\<close>

definition RVIsSatisfied ::
  "time \<Rightarrow> time \<Rightarrow> rv_cache \<Rightarrow> string \<Rightarrow> string \<Rightarrow> (bool \<times> duration) \<times> rv_cache" where
  "RVIsSatisfied now now' c uid rv =
     (case c uid of
        None \<Rightarrow> ((True, 0), c)
      | Some v \<Rightarrow>
          (let c = (if isResourceVersionNewer (ov_version v) rv then c(uid := None) else c)
           in case c uid of
                Some v \<Rightarrow>
                  (let v = (if is_zero_time (ov_first_unsatisfied v)
                            then v\<lparr>ov_first_unsatisfied := now\<rparr> else v)
                   in ((False, now' - ov_first_unsatisfied v), c(uid \<mapsto> v)))
              | None \<Rightarrow> ((True, 0), c)))"

definition RVDelete :: "rv_cache \<Rightarrow> string \<Rightarrow> rv_cache" where
  "RVDelete c uid = c(uid := None)"

section \<open>The interface\<close>

text \<open>
  \<open>expected s u\<close> is the numeric version object \<open>u\<close> must reach.  The laws are about resource
  versions the API server issues, which are decimal numbers: \<open>num rv = Some n\<close>.
\<close>

locale rv_expectation_store =
  fixes num :: "string \<Rightarrow> nat option"
    and expect :: "'s \<Rightarrow> string \<Rightarrow> string \<Rightarrow> 's"
    and observe :: "'s \<Rightarrow> string \<Rightarrow> string \<Rightarrow> 's"
    and drop_uid :: "'s \<Rightarrow> string \<Rightarrow> 's"
    and satisfied :: "'s \<Rightarrow> string \<Rightarrow> string \<Rightarrow> bool"
    and expected :: "'s \<Rightarrow> string \<Rightarrow> nat option"
    and inv :: "'s \<Rightarrow> bool"
  assumes expected_expect: "inv s \<Longrightarrow> num rv = Some n \<Longrightarrow> expected (expect s u rv) u' =
      (if u' = u then Some (case expected s u of None \<Rightarrow> n | Some m \<Rightarrow> max m n) else expected s u')"
    and inv_expect: "inv s \<Longrightarrow> num rv = Some n \<Longrightarrow> inv (expect s u rv)"
    and expected_observe: "inv s \<Longrightarrow> num rv = Some n \<Longrightarrow> expected (observe s u rv) u' =
      (if u' = u
       then (case expected s u of None \<Rightarrow> None | Some m \<Rightarrow> if m \<le> n then None else Some m)
       else expected s u')"
    and inv_observe: "inv s \<Longrightarrow> inv (observe s u rv)"
    and expected_drop: "expected (drop_uid s u) u' = (if u' = u then None else expected s u')"
    and inv_drop: "inv s \<Longrightarrow> inv (drop_uid s u)"
    and satisfied_iff: "inv s \<Longrightarrow> num rv = Some n \<Longrightarrow>
      satisfied s u rv \<longleftrightarrow> (case expected s u of None \<Rightarrow> True | Some m \<Rightarrow> m \<le> n)"
begin

definition expect_all :: "'s \<Rightarrow> string \<Rightarrow> string list \<Rightarrow> 's" where
  "expect_all s u rvs = foldl (\<lambda>s rv. expect s u rv) s rvs"

lemma expect_all_step: "expect_all s u (rv # rvs) = expect_all (expect s u rv) u rvs"
  by (simp add: expect_all_def)

text \<open>After a series of writes, an object is current exactly when it has reached all of them.\<close>

lemma satisfied_expect_all:
  assumes "inv s" and "\<And>rv. rv \<in> set rvs \<Longrightarrow> num rv \<noteq> None" and "num rv = Some n"
  shows "satisfied (expect_all s u rvs) u rv \<longleftrightarrow>
    (case expected s u of None \<Rightarrow> True | Some m \<Rightarrow> m \<le> n) \<and> (\<forall>r \<in> set rvs. the (num r) \<le> n)"
  using assms
proof (induction rvs arbitrary: s)
  case Nil
  then show ?case by (simp add: expect_all_def satisfied_iff)
next
  case (Cons r rvs)
  from Cons.prems(2) [of r] obtain m where m: "num r = Some m" by auto
  with Cons.prems(1) have "inv (expect s u r)" by (rule inv_expect)
  with Cons.IH [of "expect s u r"] Cons.prems m show ?case
    by (auto simp: expect_all_step expected_expect split: option.splits)
qed

text \<open>An observation that is current clears the expectation, an older one keeps it.\<close>

lemma observe_then_satisfied:
  "inv s \<Longrightarrow> num rv = Some n \<Longrightarrow> satisfied (observe s u rv) u rv = satisfied s u rv"
  by (auto simp: satisfied_iff inv_observe expected_observe split: option.splits)

end

section \<open>The cache provides it\<close>

definition expected_version :: "rv_cache \<Rightarrow> string \<Rightarrow> nat option" where
  "expected_version c uid = (case c uid of None \<Rightarrow> None | Some v \<Rightarrow> parse_uint64 (ov_version v))"

text \<open>Every stored version is a number: what holds when only API server versions are expected.\<close>

definition numeric_versions :: "rv_cache \<Rightarrow> bool" where
  "numeric_versions c \<longleftrightarrow> (\<forall>uid v. c uid = Some v \<longrightarrow> parse_uint64 (ov_version v) \<noteq> None)"

definition is_satisfied_rv :: "rv_cache \<Rightarrow> string \<Rightarrow> string \<Rightarrow> bool" where
  "is_satisfied_rv c uid rv = fst (fst (RVIsSatisfied 0 0 c uid rv))"

lemma parse_uint64_Nil [simp]: "parse_uint64 [] = None"
  by (simp add: parse_uint64_def)

lemma isResourceVersionNewer_num:
  "parse_uint64 old = Some m \<Longrightarrow> parse_uint64 new = Some n \<Longrightarrow>
     isResourceVersionNewer old new \<longleftrightarrow> m \<le> n"
  by (cases old) (auto simp: isResourceVersionNewer_def)

lemma RVIsSatisfied_unfold:
  "RVIsSatisfied now now' c uid rv =
     (case c uid of
        None \<Rightarrow> ((True, 0), c)
      | Some v \<Rightarrow>
          (if isResourceVersionNewer (ov_version v) rv then ((True, 0), c(uid := None))
           else let t = (if is_zero_time (ov_first_unsatisfied v) then now
                         else ov_first_unsatisfied v)
                in ((False, now' - t), c(uid \<mapsto> v\<lparr>ov_first_unsatisfied := t\<rparr>))))"
  by (auto simp: RVIsSatisfied_def Let_def split: option.splits)

lemma numericD: "numeric_versions c \<Longrightarrow> c uid = Some v \<Longrightarrow> \<exists>m. parse_uint64 (ov_version v) = Some m"
  by (auto simp: numeric_versions_def)

lemma RVExpect_numeric:
  assumes "numeric_versions c" "parse_uint64 rv = Some n"
  shows "expected_version (RVExpect c u rv) u' =
      (if u' = u then Some (case expected_version c u of None \<Rightarrow> n | Some m \<Rightarrow> max m n)
       else expected_version c u')"
    and "numeric_versions (RVExpect c u rv)"
proof -
  show "expected_version (RVExpect c u rv) u' =
      (if u' = u then Some (case expected_version c u of None \<Rightarrow> n | Some m \<Rightarrow> max m n)
       else expected_version c u')"
  proof (cases "c u")
    case None
    with assms show ?thesis
      by (simp add: RVExpect_def expected_version_def isResourceVersionNewer_def)
  next
    case (Some v)
    with assms obtain m where "parse_uint64 (ov_version v) = Some m" by (blast dest: numericD)
    with Some assms show ?thesis
      by (auto simp: RVExpect_def expected_version_def isResourceVersionNewer_num Let_def max_def)
  qed
  show "numeric_versions (RVExpect c u rv)"
    using assms by (auto simp: numeric_versions_def RVExpect_def Let_def
        isResourceVersionNewer_def split: option.splits if_splits)
qed

interpretation rv_store:
  rv_expectation_store parse_uint64 RVExpect RVObserve RVDelete is_satisfied_rv expected_version
    numeric_versions
proof unfold_locales
  fix s rv n u u'
  assume s: "numeric_versions s" and n: "parse_uint64 rv = Some n"
  show "expected_version (RVExpect s u rv) u' =
      (if u' = u then Some (case expected_version s u of None \<Rightarrow> n | Some m \<Rightarrow> max m n)
       else expected_version s u')"
    using s n by (rule RVExpect_numeric)
  show "numeric_versions (RVExpect s u rv)"
    using s n by (rule RVExpect_numeric)
  show "expected_version (RVObserve s u rv) u' =
      (if u' = u
       then (case expected_version s u of None \<Rightarrow> None | Some m \<Rightarrow> if m \<le> n then None else Some m)
       else expected_version s u')"
    using s n by (auto simp: RVObserve_def expected_version_def isResourceVersionNewer_num
        dest: numericD split: option.splits)
  show "is_satisfied_rv s u rv \<longleftrightarrow>
      (case expected_version s u of None \<Rightarrow> True | Some m \<Rightarrow> m \<le> n)"
    using s n by (auto simp: is_satisfied_rv_def RVIsSatisfied_unfold expected_version_def
        isResourceVersionNewer_num Let_def dest: numericD split: option.splits)
next
  fix s u rv
  assume "numeric_versions s"
  then show "numeric_versions (RVObserve s u rv)" "numeric_versions (RVDelete s u)"
    by (auto simp: numeric_versions_def RVObserve_def RVDelete_def split: option.splits)
next
  fix s u u'
  show "expected_version (RVDelete s u) u' = (if u' = u then None else expected_version s u')"
    by (simp add: expected_version_def RVDelete_def)
qed

text \<open>The two clock readings do not matter for the answer.\<close>

lemma RVIsSatisfied_answer: "fst (fst (RVIsSatisfied now now' s u rv)) = is_satisfied_rv s u rv"
  by (simp add: is_satisfied_rv_def RVIsSatisfied_unfold Let_def split: option.splits)

section \<open>Properties\<close>

text \<open>
  C39: After the controller has recorded the versions of several writes to one object, with nothing
  expected before, the object read from the cache is accepted exactly when its version has reached
  every one of them.  The order of the writes does not matter, and observing a stale read first
  never clears the expectation.
\<close>

theorem rv_expectations_wait_for_newest_write:
  assumes "list_all (\<lambda>r. parse_uint64 r \<noteq> None) rvs" and "parse_uint64 rv = Some n"
    and "c = foldl (\<lambda>c r. RVExpect c u r) NewResourceVersionExpectation rvs"
  shows "(fst (fst (RVIsSatisfied now now' c u rv)) \<longleftrightarrow>
      list_all (\<lambda>r. the (parse_uint64 r) \<le> n) rvs) \<and>
    (fst (fst (RVIsSatisfied now now' (RVObserve c u rv) u rv)) \<longleftrightarrow>
      list_all (\<lambda>r. the (parse_uint64 r) \<le> n) rvs)"
proof -
  note times = RVIsSatisfied_answer
  have c: "c = rv_store.expect_all NewResourceVersionExpectation u rvs"
    using assms(3) by (simp add: rv_store.expect_all_def)
  have init: "numeric_versions NewResourceVersionExpectation"
    by (simp add: numeric_versions_def NewResourceVersionExpectation_def)
  have num: "parse_uint64 r \<noteq> None" if "r \<in> set rvs" for r
    using assms(1) that by (simp add: list_all_iff)
  have sat: "is_satisfied_rv c u rv \<longleftrightarrow> list_all (\<lambda>r. the (parse_uint64 r) \<le> n) rvs"
    using rv_store.satisfied_expect_all [OF init num assms(2)]
    by (simp add: c expected_version_def NewResourceVersionExpectation_def list_all_iff)
  have "numeric_versions c"
    using init num unfolding assms(3)
    by (induction rvs rule: rev_induct) (auto intro: RVExpect_numeric(2))
  with sat assms(2) show ?thesis
    by (simp add: times rv_store.observe_then_satisfied)
qed

theorem rv_expectations_wait_for_newest_write_witness:
  "\<not> fst (fst (RVIsSatisfied 5 6
      (foldl (\<lambda>c r. RVExpect c ''uid-1'' r) NewResourceVersionExpectation [''1041'', ''1038''])
      ''uid-1'' ''1039''))"
proof -
  have nums: "parse_uint64 ''1041'' = Some 1041" "parse_uint64 ''1038'' = Some 1038"
    "parse_uint64 ''1039'' = Some 1039"
    by (simp_all add: parse_uint64_def is_digit_def digits_val_def digit_val_def)
  from rv_expectations_wait_for_newest_write
    [of "[''1041'', ''1038'']" "''1039''" 1039 _ "''uid-1''" 5 6, OF _ nums(3) refl]
  show ?thesis by (simp add: nums)
qed

text \<open>
  The comparison behind the expectations orders the resource versions an API server issues: on
  decimal 64-bit numbers it is the order of their values (reflexive, transitive and total), an
  unset version is older than everything, and a version that is no number never counts as newer
  than one that is.
\<close>

theorem resource_version_order:
  "isResourceVersionNewer [] new \<and>
   (parse_uint64 old = Some m \<longrightarrow> parse_uint64 new = Some n \<longrightarrow>
      (isResourceVersionNewer old new \<longleftrightarrow> m \<le> n)) \<and>
   (parse_uint64 old = Some m \<longrightarrow> parse_uint64 new = None \<longrightarrow> \<not> isResourceVersionNewer old new)"
  by (cases old) (auto simp: isResourceVersionNewer_def)

theorem resource_version_order_witness:
  "isResourceVersionNewer ''99'' ''100'' \<and> \<not> isResourceVersionNewer ''100'' ''99'' \<and>
   \<not> isResourceVersionNewer ''99'' ''1e3''"
proof -
  have nums: "parse_uint64 ''99'' = Some 99" "parse_uint64 ''100'' = Some 100"
    "parse_uint64 ''1e3'' = None"
    by (simp_all add: parse_uint64_def is_digit_def digits_val_def digit_val_def)
  show ?thesis
    using resource_version_order [of "''100''" "''99''" 99 100]
      resource_version_order [of "''99''" "''100''" 100 99]
      resource_version_order [of "''1e3''" "''99''" 99 0] nums by simp
qed

end
