(* ===== verification/Requeue_Duration.thy ===== *)
theory Requeue_Duration
  imports K8s_Types
begin

text \<open>
  \<open>internal/utils/requeueduration/duration.go\<close>: the store through which the steps of a reconcile
  tell it how soon to run again.  A key holds the shortest positive duration pushed since it was
  last popped.  \<open>sync.Map\<close> is a map; the store only ever holds \<open>*Duration\<close> values, so the type
  assertions of the code always succeed and have no branch here.
\<close>

section \<open>State and operations\<close>

record requeue_duration =
  rd_duration :: duration
  rd_message :: string

type_synonym duration_store = "string \<rightharpoonup> requeue_duration"

definition Duration_Update :: "requeue_duration \<Rightarrow> duration \<Rightarrow> requeue_duration" where
  "Duration_Update rd newDuration =
     (if newDuration > 0
      then (if rd_duration rd \<le> 0 \<or> newDuration < rd_duration rd
            then rd\<lparr>rd_duration := newDuration\<rparr> else rd)
      else rd)"

text \<open>\<open>msg\<close> is the text the format and its arguments print to.\<close>

definition Duration_UpdateWithMsg ::
  "requeue_duration \<Rightarrow> duration \<Rightarrow> string \<Rightarrow> requeue_duration" where
  "Duration_UpdateWithMsg rd newDuration msg =
     (if newDuration > 0
      then (if rd_duration rd \<le> 0 \<or> newDuration < rd_duration rd
            then rd\<lparr>rd_duration := newDuration, rd_message := msg\<rparr> else rd)
      else rd)"

definition Duration_Merge :: "requeue_duration \<Rightarrow> requeue_duration \<Rightarrow> requeue_duration" where
  "Duration_Merge rd rd2 = Duration_UpdateWithMsg rd (rd_duration rd2) (rd_message rd2)"

definition Duration_Get :: "requeue_duration \<Rightarrow> duration" where
  "Duration_Get rd = rd_duration rd"

definition Duration_GetWithMsg :: "requeue_duration \<Rightarrow> duration \<times> string" where
  "Duration_GetWithMsg rd = (rd_duration rd, rd_message rd)"

definition DurationStore_Push :: "duration_store \<Rightarrow> string \<Rightarrow> duration \<Rightarrow> duration_store" where
  "DurationStore_Push st key newDuration =
     (let value = (case st key of
                     None \<Rightarrow> \<lparr>rd_duration = 0, rd_message = []\<rparr>
                   | Some v \<Rightarrow> v)
      in st(key \<mapsto> Duration_Update value newDuration))"

definition DurationStore_Pop :: "duration_store \<Rightarrow> string \<Rightarrow> duration \<times> duration_store" where
  "DurationStore_Pop st key =
     (case st key of
        None \<Rightarrow> (0, st)
      | Some value \<Rightarrow> (Duration_Get value, st(key := None)))"

section \<open>The interface\<close>

text \<open>The shorter of two waits, where a wait that is not positive means "none".\<close>

definition shorter_wait :: "duration \<Rightarrow> duration \<Rightarrow> duration" where
  "shorter_wait old new = (if new > 0 \<and> (old \<le> 0 \<or> new < old) then new else old)"

lemma shorter_wait_positive: "0 < a \<Longrightarrow> 0 < b \<Longrightarrow> shorter_wait a b = min a b"
  by (simp add: shorter_wait_def)

text \<open>\<open>wait s k\<close> is what a pop of the key would return.\<close>

locale requeue_store =
  fixes push :: "'s \<Rightarrow> string \<Rightarrow> duration \<Rightarrow> 's"
    and pop :: "'s \<Rightarrow> string \<Rightarrow> duration \<times> 's"
    and wait :: "'s \<Rightarrow> string \<Rightarrow> duration"
  assumes wait_push: "wait (push s k d) k' =
      (if k' = k then shorter_wait (wait s k) d else wait s k')"
    and pop_value: "fst (pop s k) = wait s k"
    and wait_pop: "wait (snd (pop s k)) k' = (if k' = k then 0 else wait s k')"
begin

definition push_all :: "'s \<Rightarrow> string \<Rightarrow> duration list \<Rightarrow> 's" where
  "push_all s k ds = foldl (\<lambda>s d. push s k d) s ds"

lemma wait_push_all:
  "wait (push_all s k ds) k' =
     (if k' = k then foldl shorter_wait (wait s k) ds else wait s k')"
  unfolding push_all_def
  by (induction ds arbitrary: s) (auto simp: wait_push)

lemma pop_twice: "fst (pop (snd (pop s k)) k) = 0"
  by (simp add: pop_value wait_pop)

lemma pop_push_all: "fst (pop (push_all s k ds) k) = foldl shorter_wait (wait s k) ds"
  by (simp add: pop_value wait_push_all)

end

lemma foldl_shorter_wait:
  "foldl shorter_wait a ds =
     (let ps = (if 0 < a then [a] else []) @ filter (\<lambda>d. 0 < d) ds
      in if ps = [] then a else Min (set ps))"
proof (induction ds arbitrary: a)
  case Nil
  then show ?case by simp
next
  case (Cons d ds)
  show ?case
  proof (cases "0 < d")
    case False
    with Cons [of a] show ?thesis by (simp add: shorter_wait_def)
  next
    case d: True
    show ?thesis
    proof (cases "0 < a")
      case True
      define S where "S = {x \<in> set ds. 0 < x}"
      have "finite S" by (simp add: S_def)
      have "foldl shorter_wait a (d # ds) = Min (insert (min a d) S)"
        using True d Cons [of "min a d"] by (simp add: shorter_wait_positive S_def)
      also have "\<dots> = Min (insert a (insert d S))"
        using \<open>finite S\<close> by (cases "S = {}") (simp_all add: min.assoc)
      finally show ?thesis using True d by (simp add: S_def Let_def)
    next
      case False
      with d Cons [of d] show ?thesis by (simp add: shorter_wait_def Let_def)
    qed
  qed
qed

section \<open>The store provides it\<close>

definition stored_wait :: "duration_store \<Rightarrow> string \<Rightarrow> duration" where
  "stored_wait st key = (case st key of None \<Rightarrow> 0 | Some rd \<Rightarrow> rd_duration rd)"

interpretation duration_store: requeue_store DurationStore_Push DurationStore_Pop stored_wait
  by unfold_locales
    (auto simp: stored_wait_def DurationStore_Push_def DurationStore_Pop_def Duration_Update_def
      Duration_Get_def shorter_wait_def Let_def split: option.splits)

section \<open>Properties\<close>

text \<open>
  A pop returns the shortest positive duration pushed for the key since the last pop (0 when
  there was none), in whatever order the pushes came, leaves the other keys alone and empties the
  key, so that a second pop returns 0.
\<close>

theorem duration_store_pops_shortest_positive:
  assumes "st key = None"
  shows "fst (DurationStore_Pop (foldl (\<lambda>s d. DurationStore_Push s key d) st ds) key) =
      (if filter (\<lambda>d. 0 < d) ds = [] then 0 else Min (set (filter (\<lambda>d. 0 < d) ds))) \<and>
    snd (DurationStore_Pop (foldl (\<lambda>s d. DurationStore_Push s key d) st ds) key) = st"
proof -
  let ?st = "foldl (\<lambda>s d. DurationStore_Push s key d) st ds"
  have "stored_wait st key = 0" using assms by (simp add: stored_wait_def)
  then have "fst (DurationStore_Pop ?st key) = foldl shorter_wait 0 ds"
    using duration_store.pop_push_all [of st key ds] by (simp add: duration_store.push_all_def)
  moreover have frame: "(foldl (\<lambda>s d. DurationStore_Push s key d) s ds)(key := None) = s(key := None)" for s
    by (induction ds arbitrary: s) (simp_all add: DurationStore_Push_def Let_def)
  have "snd (DurationStore_Pop ?st key) = st"
  proof (cases "?st key")
    case None
    with frame [of st] assms show ?thesis by (simp add: DurationStore_Pop_def fun_upd_idem)
  next
    case (Some rd)
    with frame [of st] assms show ?thesis by (simp add: DurationStore_Pop_def fun_upd_idem)
  qed
  ultimately show ?thesis
    using foldl_shorter_wait [of 0 ds] by (simp add: Let_def)
qed

theorem duration_store_pops_shortest_positive_witness:
  "fst (DurationStore_Pop (foldl (\<lambda>s d. DurationStore_Push s ''ns/web'' d) Map.empty
      [30 * second, 0, 5 * second, 10 * second]) ''ns/web'') = 5 * second"
  using duration_store_pops_shortest_positive
    [of Map.empty "''ns/web''" "[30 * second, 0, 5 * second, 10 * second]"]
  by simp

text \<open>
  Merging is the same minimum: the merged duration is the shorter positive one, its message is
  the message of the duration it came from, and merging in an unset duration changes nothing.
\<close>

theorem duration_merge_keeps_shortest:
  "rd_duration (Duration_Merge rd rd2) = shorter_wait (rd_duration rd) (rd_duration rd2) \<and>
   Duration_GetWithMsg (Duration_Merge rd rd2) \<in> {Duration_GetWithMsg rd, Duration_GetWithMsg rd2} \<and>
   (rd_duration rd2 \<le> 0 \<longrightarrow> Duration_Merge rd rd2 = rd) \<and>
   Duration_Merge rd rd = rd"
  by (auto simp: Duration_Merge_def Duration_UpdateWithMsg_def Duration_GetWithMsg_def
      shorter_wait_def)

theorem duration_merge_keeps_shortest_witness:
  "Duration_Merge \<lparr>rd_duration = 7, rd_message = ''a''\<rparr> \<lparr>rd_duration = 0, rd_message = ''b''\<rparr> =
     \<lparr>rd_duration = 7, rd_message = ''a''\<rparr>"
  using duration_merge_keeps_shortest
    [of "\<lparr>rd_duration = 7, rd_message = ''a''\<rparr>" "\<lparr>rd_duration = 0, rd_message = ''b''\<rparr>"]
  by simp

end
