(* ===== verification/Cluster.thy ===== *)
theory Cluster
  imports External Scale_Expectations RV_Expectations Requeue_Duration
begin

text \<open>
  What the controller acts on: the API server, the clock and the random source, as a record of
  functions on an abstract world \<open>'w\<close>, and the controller's own process-wide state, the three
  variables of \<open>internal/utils/inplaceu_utils.go\<close> with the events recorded so far.  Every call
  may change the world in any way, so other clients of the API server are covered.
\<close>

section \<open>Calls\<close>

text \<open>
  \<open>Update\<close> and \<open>Patch\<close> write the server's answer into the object they are given: the pod they
  return is that object afterwards.
\<close>

record 'w api =
  clock_now :: "'w \<Rightarrow> time \<times> 'w"
  random_string :: "nat \<Rightarrow> 'w \<Rightarrow> string \<times> 'w"
  get_pod :: "string \<Rightarrow> string \<Rightarrow> 'w \<Rightarrow> (go_error + pod) \<times> 'w"
  create_pod :: "pod \<Rightarrow> 'w \<Rightarrow> go_error option \<times> 'w"
  update_pod :: "pod \<Rightarrow> 'w \<Rightarrow> (go_error + pod) \<times> 'w"
  delete_pod :: "pod \<Rightarrow> 'w \<Rightarrow> go_error option \<times> 'w"
  patch_pod :: "pod \<Rightarrow> string \<Rightarrow> 'w \<Rightarrow> (go_error + pod) \<times> 'w"
  list_owned_pods :: "string \<Rightarrow> string \<Rightarrow> 'w \<Rightarrow> (go_error + pod list) \<times> 'w"
  get_iu :: "string \<Rightarrow> string \<Rightarrow> 'w \<Rightarrow> (go_error + inplaceu) \<times> 'w"
  list_iu :: "string \<Rightarrow> 'w \<Rightarrow> (go_error + inplaceu list) \<times> 'w"
  update_iu_status :: "inplaceu \<Rightarrow> 'w \<Rightarrow> go_error option \<times> 'w"
  get_revision :: "string \<Rightarrow> string \<Rightarrow> 'w \<Rightarrow> (go_error + revision) \<times> 'w"
  list_revisions :: "string \<Rightarrow> selector \<Rightarrow> 'w \<Rightarrow> (go_error + revision list) \<times> 'w"
  create_revision :: "revision \<Rightarrow> 'w \<Rightarrow> (go_error + revision) \<times> 'w"
  update_revision :: "revision \<Rightarrow> 'w \<Rightarrow> (go_error + revision) \<times> 'w"
  delete_revision :: "revision \<Rightarrow> 'w \<Rightarrow> go_error option \<times> 'w"

section \<open>The state of the controller process\<close>

datatype event_type = EventNormal | EventWarning

record event =
  ev_type :: event_type
  ev_reason :: string
  ev_object :: string

record 'w sys =
  world :: 'w
  scale_exps :: scale_cache
  rv_exps :: rv_cache
  durations :: duration_store
  events :: "event list"

definition on_world :: "('w \<Rightarrow> 'a \<times> 'w) \<Rightarrow> 'w sys \<Rightarrow> 'a \<times> 'w sys" where
  "on_world f s = (case f (world s) of (a, w) \<Rightarrow> (a, s\<lparr>world := w\<rparr>))"

definition record_event :: "event_type \<Rightarrow> string \<Rightarrow> string \<Rightarrow> 'w sys \<Rightarrow> 'w sys" where
  "record_event t reason obj s =
     s\<lparr>events := events s @ [\<lparr>ev_type = t, ev_reason = reason, ev_object = obj\<rparr>]\<rparr>"

definition expect_scale :: "string \<Rightarrow> scale_action \<Rightarrow> string \<Rightarrow> 'w sys \<Rightarrow> 'w sys" where
  "expect_scale key a n s = s\<lparr>scale_exps := ExpectScale (scale_exps s) key a n\<rparr>"

definition observe_scale :: "string \<Rightarrow> scale_action \<Rightarrow> string \<Rightarrow> 'w sys \<Rightarrow> 'w sys" where
  "observe_scale key a n s = s\<lparr>scale_exps := ObserveScale (scale_exps s) key a n\<rparr>"

definition expect_rv :: "string \<Rightarrow> string \<Rightarrow> 'w sys \<Rightarrow> 'w sys" where
  "expect_rv uid rv s = s\<lparr>rv_exps := RVExpect (rv_exps s) uid rv\<rparr>"

definition push_duration :: "string \<Rightarrow> duration \<Rightarrow> 'w sys \<Rightarrow> 'w sys" where
  "push_duration key d s = s\<lparr>durations := DurationStore_Push (durations s) key d\<rparr>"

text \<open>
  \<open>ScaleExpectations.SatisfiedExpectations\<close> and the operations of \<open>ResourceVersionExpectations\<close> on the
  process state, with the clock readings they take.
\<close>

definition check_scale :: "'w api \<Rightarrow> bool \<Rightarrow> string \<Rightarrow> 'w sys \<Rightarrow> (bool \<times> duration) \<times> 'w sys" where
  "check_scale A create_first key s =
     (case on_world (clock_now A) s of (now, s) \<Rightarrow>
      case on_world (clock_now A) s of (now', s) \<Rightarrow>
      case SatisfiedExpectations create_first now now' (scale_exps s) key of
        ((ok, d, dirty), c) \<Rightarrow> ((ok, d), s\<lparr>scale_exps := c\<rparr>))"

definition observe_rv :: "string \<Rightarrow> string \<Rightarrow> 'w sys \<Rightarrow> 'w sys" where
  "observe_rv uid rv s = s\<lparr>rv_exps := RVObserve (rv_exps s) uid rv\<rparr>"

definition delete_rv :: "string \<Rightarrow> 'w sys \<Rightarrow> 'w sys" where
  "delete_rv uid s = s\<lparr>rv_exps := RVDelete (rv_exps s) uid\<rparr>"

definition check_rv :: "'w api \<Rightarrow> string \<Rightarrow> string \<Rightarrow> 'w sys \<Rightarrow> (bool \<times> duration) \<times> 'w sys" where
  "check_rv A uid rv s =
     (case on_world (clock_now A) s of (now, s) \<Rightarrow>
      case on_world (clock_now A) s of (now', s) \<Rightarrow>
      case RVIsSatisfied now now' (rv_exps s) uid rv of
        ((ok, d), c) \<Rightarrow> ((ok, d), s\<lparr>rv_exps := c\<rparr>))"

named_theorems sys_frame \<open>which part of the controller state an operation leaves alone\<close>

lemma on_world_frame [simp, sys_frame]:
  "scale_exps (snd (on_world f s)) = scale_exps s"
  "rv_exps (snd (on_world f s)) = rv_exps s"
  "durations (snd (on_world f s)) = durations s"
  "events (snd (on_world f s)) = events s"
  "world (snd (on_world f s)) = snd (f (world s))"
  "fst (on_world f s) = fst (f (world s))"
  by (simp_all add: on_world_def split: prod.splits)

lemma record_event_frame [simp, sys_frame]:
  "scale_exps (record_event t r obj s) = scale_exps s"
  "rv_exps (record_event t r obj s) = rv_exps s"
  "durations (record_event t r obj s) = durations s"
  "world (record_event t r obj s) = world s"
  by (simp_all add: record_event_def)

lemma expect_scale_frame [simp, sys_frame]:
  "scale_exps (expect_scale k a n s) = ExpectScale (scale_exps s) k a n"
  "rv_exps (expect_scale k a n s) = rv_exps s"
  "durations (expect_scale k a n s) = durations s"
  "events (expect_scale k a n s) = events s"
  "world (expect_scale k a n s) = world s"
  by (simp_all add: expect_scale_def)

lemma observe_scale_frame [simp, sys_frame]:
  "scale_exps (observe_scale k a n s) = ObserveScale (scale_exps s) k a n"
  "rv_exps (observe_scale k a n s) = rv_exps s"
  "durations (observe_scale k a n s) = durations s"
  "events (observe_scale k a n s) = events s"
  "world (observe_scale k a n s) = world s"
  by (simp_all add: observe_scale_def)

lemma expect_rv_frame [simp, sys_frame]:
  "scale_exps (expect_rv u rv s) = scale_exps s"
  "rv_exps (expect_rv u rv s) = RVExpect (rv_exps s) u rv"
  "durations (expect_rv u rv s) = durations s"
  "events (expect_rv u rv s) = events s"
  "world (expect_rv u rv s) = world s"
  by (simp_all add: expect_rv_def)

lemma push_duration_frame [simp, sys_frame]:
  "scale_exps (push_duration k d s) = scale_exps s"
  "rv_exps (push_duration k d s) = rv_exps s"
  "durations (push_duration k d s) = DurationStore_Push (durations s) k d"
  "events (push_duration k d s) = events s"
  "world (push_duration k d s) = world s"
  by (simp_all add: push_duration_def)

lemma check_scale_frame [simp, sys_frame]:
  "fst (fst (check_scale A cf k s)) \<longleftrightarrow> (\<forall>a. pending_names (scale_exps s) k a = {||})"
  "pending_names (scale_exps (snd (check_scale A cf k s))) = pending_names (scale_exps s)"
  "rv_exps (snd (check_scale A cf k s)) = rv_exps s"
  "durations (snd (check_scale A cf k s)) = durations s"
  "events (snd (check_scale A cf k s)) = events s"
  "world (snd (check_scale A cf k s)) = snd (clock_now A (snd (clock_now A (world s))))"
proof -
  obtain now w where 1: "clock_now A (world s) = (now, w)" by (cases "clock_now A (world s)")
  obtain now' w' where 2: "clock_now A w = (now', w')" by (cases "clock_now A w")
  obtain ok d dirty c where 3: "SatisfiedExpectations cf now now' (scale_exps s) k = ((ok, d, dirty), c)"
    by (metis surj_pair)
  have 4: "ok \<longleftrightarrow> (\<forall>a. pending_names (scale_exps s) k a = {||})"
    using SatisfiedExpectations_fst [of cf now now' "scale_exps s" k] by (simp add: 3)
  have 5: "pending_names c = pending_names (scale_exps s)"
    using pending_names_Satisfied [of cf now now' "scale_exps s" k] by (simp add: 3)
  show "fst (fst (check_scale A cf k s)) \<longleftrightarrow> (\<forall>a. pending_names (scale_exps s) k a = {||})"
    "pending_names (scale_exps (snd (check_scale A cf k s))) = pending_names (scale_exps s)"
    "rv_exps (snd (check_scale A cf k s)) = rv_exps s"
    "durations (snd (check_scale A cf k s)) = durations s"
    "events (snd (check_scale A cf k s)) = events s"
    "world (snd (check_scale A cf k s)) = snd (clock_now A (snd (clock_now A (world s))))"
    by (simp_all add: check_scale_def on_world_def 1 2 3 4 5)
qed

lemma observe_rv_frame [simp, sys_frame]:
  "scale_exps (observe_rv u rv s) = scale_exps s"
  "rv_exps (observe_rv u rv s) = RVObserve (rv_exps s) u rv"
  "durations (observe_rv u rv s) = durations s"
  "events (observe_rv u rv s) = events s"
  "world (observe_rv u rv s) = world s"
  by (simp_all add: observe_rv_def)

lemma delete_rv_frame [simp, sys_frame]:
  "scale_exps (delete_rv u s) = scale_exps s"
  "rv_exps (delete_rv u s) = RVDelete (rv_exps s) u"
  "durations (delete_rv u s) = durations s"
  "events (delete_rv u s) = events s"
  "world (delete_rv u s) = world s"
  by (simp_all add: delete_rv_def)

lemma check_rv_frame [simp, sys_frame]:
  "fst (fst (check_rv A u rv s)) = is_satisfied_rv (rv_exps s) u rv"
  "scale_exps (snd (check_rv A u rv s)) = scale_exps s"
  "durations (snd (check_rv A u rv s)) = durations s"
  "events (snd (check_rv A u rv s)) = events s"
  "world (snd (check_rv A u rv s)) = snd (clock_now A (snd (clock_now A (world s))))"
proof -
  obtain now w where 1: "clock_now A (world s) = (now, w)" by (cases "clock_now A (world s)")
  obtain now' w' where 2: "clock_now A w = (now', w')" by (cases "clock_now A w")
  obtain ok d c where 3: "RVIsSatisfied now now' (rv_exps s) u rv = ((ok, d), c)"
    by (metis surj_pair)
  have 4: "ok = is_satisfied_rv (rv_exps s) u rv"
    using RVIsSatisfied_answer [of now now' "rv_exps s" u rv] by (simp add: 3)
  show "fst (fst (check_rv A u rv s)) = is_satisfied_rv (rv_exps s) u rv"
    "scale_exps (snd (check_rv A u rv s)) = scale_exps s"
    "durations (snd (check_rv A u rv s)) = durations s"
    "events (snd (check_rv A u rv s)) = events s"
    "world (snd (check_rv A u rv s)) = snd (clock_now A (snd (clock_now A (world s))))"
    by (simp_all add: check_rv_def on_world_def 1 2 3 4)
qed

section \<open>Reading the events\<close>

text \<open>The objects of the events of a kind, in order.\<close>

definition event_objects :: "string \<Rightarrow> event list \<Rightarrow> string list" where
  "event_objects reason evs = map ev_object (filter (\<lambda>e. ev_reason e = reason) evs)"

lemma event_objects_simps [simp]:
  "event_objects r [] = []"
  "event_objects r (evs @ evs') = event_objects r evs @ event_objects r evs'"
  "event_objects r (e # evs) = (if ev_reason e = r then [ev_object e] else []) @ event_objects r evs"
  by (simp_all add: event_objects_def)

definition event_of :: "event_type \<Rightarrow> string \<Rightarrow> string \<Rightarrow> event" where
  "event_of t reason obj = \<lparr>ev_type = t, ev_reason = reason, ev_object = obj\<rparr>"

lemma event_of_fields [simp]:
  "ev_reason (event_of t r obj) = r" "ev_object (event_of t r obj) = obj" "ev_type (event_of t r obj) = t"
  by (simp_all add: event_of_def)

lemma events_record [simp]:
  "events (record_event t r obj s) = events s @ [event_of t r obj]"
  by (simp add: record_event_def event_of_def)

text \<open>The events a step adds, by reason.\<close>

definition new_objects :: "string \<Rightarrow> 'w sys \<Rightarrow> 'w sys \<Rightarrow> string list" where
  "new_objects reason s s' = event_objects reason (drop (length (events s)) (events s'))"

definition events_grow :: "'w sys \<Rightarrow> 'w sys \<Rightarrow> bool" where
  "events_grow s s' \<longleftrightarrow> (\<exists>evs. events s' = events s @ evs)"

lemma events_grow_same: "events s' = events s \<Longrightarrow> events_grow s s'"
  by (simp add: events_grow_def)

lemma new_objects_same: "events s' = events s \<Longrightarrow> new_objects r s s' = []"
  by (simp add: new_objects_def)

lemma events_grow_trans: "events_grow s s' \<Longrightarrow> events_grow s' s'' \<Longrightarrow> events_grow s s''"
  by (auto simp: events_grow_def)

lemma new_objects_trans:
  "events_grow s s' \<Longrightarrow> events_grow s' s'' \<Longrightarrow>
     new_objects r s s'' = new_objects r s s' @ new_objects r s' s''"
  by (auto simp: events_grow_def new_objects_def)

lemma new_objects_cong:
  "events s1 = events s \<Longrightarrow> events s1' = events s' \<Longrightarrow> new_objects r s1 s1' = new_objects r s s'"
  "events s1 = events s \<Longrightarrow> events s1' = events s' \<Longrightarrow> events_grow s1 s1' = events_grow s s'"
  by (simp_all add: new_objects_def events_grow_def)

section \<open>Pod predicates of the utilities\<close>

text \<open>\<open>IsRunning\<close>, \<open>IsPodAvailable\<close> at a time, and the two ways of splitting a list of pods.\<close>

definition IsRunning :: "pod \<Rightarrow> bool" where
  "IsRunning p = (pod_phase p = PodRunning)"

definition IsPodAvailable :: "pod_lib \<Rightarrow> time \<Rightarrow> int32 \<Rightarrow> pod \<Rightarrow> bool" where
  "IsPodAvailable L now minReadySeconds p =
     (pod_phase p = PodRunning \<and> is_pod_available L p minReadySeconds now)"

definition GetPodNames :: "pod list \<Rightarrow> string fset" where
  "GetPodNames pods = fset_of_list (map pod_name pods)"

lemma IsPodAvailable_running: "IsPodAvailable L now mrs p \<Longrightarrow> IsRunning p"
  by (simp add: IsPodAvailable_def IsRunning_def)

end
