(* ===== verification/Revision_Hash.thy ===== *)
theory Revision_Hash
  imports K8s_Types
begin

text \<open>
  Revision hashes on object labels: \<open>GetShortHash\<close> and \<open>revisionAdapterImpl\<close> of
  \<open>internal/utils/inplaceu_utils.go\<close>, \<open>defaultImpl\<close> of
  \<open>internal/utils/revision_adapter/revision_adapater.go\<close>.  Both implement the interface
  \<open>revisionadapter.Interface\<close>, stated here as the locale \<open>revision_adapter\<close>.  Also the
  label test and the patch of \<open>internal/specifieddelete/specified_delete.go\<close>.
\<close>

section \<open>The labels of the Kubernetes API that carry a revision\<close>

definition ControllerRevisionHashLabelKey :: string where
  "ControllerRevisionHashLabelKey = ''controller-revision-hash''"

definition DefaultDeploymentUniqueLabelKey :: string where
  "DefaultDeploymentUniqueLabelKey = ''pod-template-hash''"

lemma label_keys_distinct [simp]:
  "ControllerRevisionHashLabelKey \<noteq> DefaultDeploymentUniqueLabelKey"
  "DefaultDeploymentUniqueLabelKey \<noteq> ControllerRevisionHashLabelKey"
  "InplaceuInstanceID \<noteq> ControllerRevisionHashLabelKey"
  "InplaceuInstanceID \<noteq> DefaultDeploymentUniqueLabelKey"
  "SpecifiedDeleteKey \<noteq> ControllerRevisionHashLabelKey"
  "SpecifiedDeleteKey \<noteq> DefaultDeploymentUniqueLabelKey"
  "SpecifiedDeleteKey \<noteq> InplaceuInstanceID"
  "InplaceuInstanceID \<noteq> SpecifiedDeleteKey"
  by (simp_all add: ControllerRevisionHashLabelKey_def DefaultDeploymentUniqueLabelKey_def
      InplaceuInstanceID_def SpecifiedDeleteKey_def)

section \<open>Short hashes\<close>

definition GetShortHash :: "string \<Rightarrow> string" where
  "GetShortHash hash = last (split_on (CHR ''-'') hash)"

lemma GetShortHash_no_dash: "CHR ''-'' \<notin> set (GetShortHash h)"
  unfolding GetShortHash_def by (rule split_on_pieces, rule last_in_set) simp

lemma GetShortHash_id: "CHR ''-'' \<notin> set h \<Longrightarrow> GetShortHash h = h"
  by (simp add: GetShortHash_def split_on_no_sep)

lemma GetShortHash_append: "GetShortHash (a @ CHR ''-'' # b) = GetShortHash b"
  by (simp add: GetShortHash_def split_on_append)

lemma GetShortHash_idem [simp]: "GetShortHash (GetShortHash h) = GetShortHash h"
  by (rule GetShortHash_id, rule GetShortHash_no_dash)

section \<open>The two adapters\<close>

definition EqualToRevisionHash :: "str_map \<Rightarrow> string \<Rightarrow> bool" where
  "EqualToRevisionHash labels hash =
     (let objHash = map_get labels ControllerRevisionHashLabelKey
      in if objHash = hash then True else GetShortHash hash = GetShortHash objHash)"

definition WriteRevisionHash :: "str_map \<Rightarrow> string \<Rightarrow> str_map" where
  "WriteRevisionHash labels hash =
     (let labels = ensure_map labels; shortHash = GetShortHash hash
      in map_put (map_put labels ControllerRevisionHashLabelKey hash)
           DefaultDeploymentUniqueLabelKey shortHash)"

definition default_EqualToRevisionHash :: "str_map \<Rightarrow> string \<Rightarrow> bool" where
  "default_EqualToRevisionHash labels hash =
     (map_get labels ControllerRevisionHashLabelKey = hash)"

definition default_WriteRevisionHash :: "str_map \<Rightarrow> string \<Rightarrow> str_map" where
  "default_WriteRevisionHash labels hash =
     map_put (ensure_map labels) ControllerRevisionHashLabelKey hash"

section \<open>The interface\<close>

text \<open>
  \<open>revisionadapter.Interface\<close>.  What its clients rely on: an object on which a hash was
  written is recognised under that hash, the answer depends on the adapter's own labels only, and
  writing a hash leaves the other labels alone.
\<close>

locale revision_adapter =
  fixes equal_hash :: "str_map \<Rightarrow> string \<Rightarrow> bool"
    and write_hash :: "str_map \<Rightarrow> string \<Rightarrow> str_map"
    and own_key :: "string \<Rightarrow> bool"
  assumes equal_write: "equal_hash (write_hash m h) h"
    and equal_local: "(\<And>k. own_key k \<Longrightarrow> map_lookup m k = map_lookup m' k) \<Longrightarrow>
      equal_hash m h = equal_hash m' h"
    and write_frame: "\<not> own_key k \<Longrightarrow> map_lookup (write_hash m h) k = map_lookup m k"
    and write_local: "own_key k \<Longrightarrow> map_lookup (write_hash m h) k = map_lookup (write_hash m' h) k"
begin

lemma equal_put:
  assumes "\<not> own_key k"
  shows "equal_hash (map_put m k v) h = equal_hash m h"
proof (rule equal_local)
  fix k'
  assume "own_key k'"
  with assms show "map_lookup (map_put m k v) k' = map_lookup m k'" by auto
qed

lemma equal_write_put:
  "\<not> own_key k \<Longrightarrow> equal_hash (map_put (write_hash m h) k v) h"
  by (simp add: equal_put equal_write)

lemma equal_write_other: "equal_hash (write_hash m h) h' = equal_hash (write_hash m' h) h'"
  by (rule equal_local) (rule write_local)

lemma write_again: "equal_hash (write_hash (write_hash m h) h') h'"
  by (rule equal_write)

end

lemma EqualToRevisionHash_short:
  "EqualToRevisionHash m h \<longleftrightarrow>
     GetShortHash (map_get m ControllerRevisionHashLabelKey) = GetShortHash h"
  by (auto simp: EqualToRevisionHash_def Let_def)

lemma WriteRevisionHash_lookup [go_map_simps]:
  "map_lookup (WriteRevisionHash m h) k =
     (if k = ControllerRevisionHashLabelKey then Some h
      else if k = DefaultDeploymentUniqueLabelKey then Some (GetShortHash h)
      else map_lookup m k)"
  by (auto simp: WriteRevisionHash_def Let_def)

lemma WriteRevisionHash_not_nil [simp]: "WriteRevisionHash m h \<noteq> None"
  by (simp add: WriteRevisionHash_def Let_def)

definition is_revision_label :: "string \<Rightarrow> bool" where
  "is_revision_label k =
     (k = ControllerRevisionHashLabelKey \<or> k = DefaultDeploymentUniqueLabelKey)"

interpretation hash_adapter:
  revision_adapter EqualToRevisionHash WriteRevisionHash is_revision_label
proof unfold_locales
  fix m h
  show "EqualToRevisionHash (WriteRevisionHash m h) h"
    by (simp add: EqualToRevisionHash_def map_get_def WriteRevisionHash_lookup)
next
  fix m m' h
  assume "\<And>k. is_revision_label k \<Longrightarrow> map_lookup m k = map_lookup m' k"
  then show "EqualToRevisionHash m h = EqualToRevisionHash m' h"
    by (simp add: EqualToRevisionHash_def map_get_def is_revision_label_def)
qed (auto simp: WriteRevisionHash_lookup is_revision_label_def)

interpretation default_adapter:
  revision_adapter default_EqualToRevisionHash default_WriteRevisionHash
    "\<lambda>k. k = ControllerRevisionHashLabelKey"
  by unfold_locales
    (simp_all add: default_EqualToRevisionHash_def default_WriteRevisionHash_def map_get_def)

section \<open>Specified delete\<close>

definition IsSpecifiedDelete :: "pod \<Rightarrow> bool" where
  "IsSpecifiedDelete p = map_has (pod_labels p) SpecifiedDeleteKey"

lemma specified_delete_not_revision_label [simp]:
  "\<not> is_revision_label SpecifiedDeleteKey" "\<not> is_revision_label InplaceuInstanceID"
  by (simp_all add: is_revision_label_def)

section \<open>Properties\<close>

text \<open>
  \<open>EqualToRevisionHash\<close> compares short hashes only: an object carries a revision exactly when
  the part of its hash label after the last dash is that of the revision's name.  In particular the
  full revision name \<open>parent-hash\<close>, the bare hash and the name under another parent are all
  accepted for the same object.
\<close>

theorem equal_to_revision_hash_is_short_hash_equality:
  "(EqualToRevisionHash m h \<longleftrightarrow>
      GetShortHash (map_get m ControllerRevisionHashLabelKey) = GetShortHash h) \<and>
   EqualToRevisionHash m (parent @ CHR ''-'' # h) = EqualToRevisionHash m h \<and>
   EqualToRevisionHash m (GetShortHash h) = EqualToRevisionHash m h \<and>
   (EqualToRevisionHash (WriteRevisionHash m h) h' \<longleftrightarrow> GetShortHash h = GetShortHash h')"
  by (auto simp: EqualToRevisionHash_short GetShortHash_append map_get_def
      WriteRevisionHash_lookup)

text \<open>
  Writing a revision hash is a faithful record: the object is then recognised under that hash
  whatever its labels were (a nil label map included), the template-hash label holds the short hash,
  every other label is kept, and a label written afterwards under another key (the instance id, the
  specified-delete mark) does not disturb it.
\<close>

theorem write_revision_hash_roundtrip:
  "EqualToRevisionHash (WriteRevisionHash m h) h \<and>
   map_lookup (WriteRevisionHash m h) k =
     (if k = ControllerRevisionHashLabelKey then Some h
      else if k = DefaultDeploymentUniqueLabelKey then Some (GetShortHash h)
      else map_lookup m k) \<and>
   EqualToRevisionHash (map_put (WriteRevisionHash m h) InplaceuInstanceID v) h \<and>
   EqualToRevisionHash (map_put (WriteRevisionHash m h) SpecifiedDeleteKey v) h \<and>
   map_get (WriteRevisionHash m (parent @ CHR ''-'' # h)) DefaultDeploymentUniqueLabelKey =
     GetShortHash h"
  using hash_adapter.equal_write hash_adapter.equal_write_put
  by (auto simp: WriteRevisionHash_lookup map_get_def GetShortHash_append)

end
