(* ===== verification/Pod_Groups.thy ===== *)
theory Pod_Groups
  imports Cluster Revision_Hash
begin

text \<open>
  The list helpers of \<open>internal/utils/inplaceu_utils.go\<close>: \<open>GroupUpdateAndNotUpdatePods\<close>,
  \<open>GetActiveAndInactivePods\<close>, \<open>NextRevision\<close>, and the batched runner \<open>DoItSlowly\<close>.
\<close>

section \<open>Splitting pods\<close>

definition is_pod_update :: "string \<Rightarrow> pod \<Rightarrow> bool" where
  "is_pod_update updateRevision p = EqualToRevisionHash (pod_labels p) updateRevision"

definition GroupUpdateAndNotUpdatePods :: "pod list \<Rightarrow> string \<Rightarrow> pod list \<times> pod list" where
  "GroupUpdateAndNotUpdatePods pods updateRevision =
     foldl (\<lambda>(update, notUpdate) p.
        if is_pod_update updateRevision p then (update @ [p], notUpdate)
        else (update, notUpdate @ [p])) ([], []) pods"

lemma GroupUpdateAndNotUpdatePods_filter:
  "GroupUpdateAndNotUpdatePods pods hash =
     (filter (is_pod_update hash) pods, filter (\<lambda>p. \<not> is_pod_update hash p) pods)"
proof -
  have "foldl (\<lambda>(update, notUpdate) p.
        if is_pod_update hash p then (update @ [p], notUpdate)
        else (update, notUpdate @ [p])) (us, ns) pods =
     (us @ filter (is_pod_update hash) pods, ns @ filter (\<lambda>p. \<not> is_pod_update hash p) pods)" for us ns
    by (induction pods arbitrary: us ns) auto
  then show ?thesis by (simp add: GroupUpdateAndNotUpdatePods_def)
qed

definition GetActiveAndInactivePods ::
  "pod_lib \<Rightarrow> 'w api \<Rightarrow> string \<Rightarrow> string \<Rightarrow> 'w sys \<Rightarrow> (go_error + pod list \<times> pod list) \<times> 'w sys" where
  "GetActiveAndInactivePods L A namespace ownerUID s =
     (case on_world (list_owned_pods A namespace ownerUID) s of
        (Inl e, s) \<Rightarrow> (Inl e, s)
      | (Inr pods, s) \<Rightarrow>
          (Inr (foldl (\<lambda>(active, inactive) p.
              if is_pod_active L p then (active @ [p], inactive) else (active, inactive @ [p]))
            ([], []) pods), s))"

definition NextRevision :: "revision list \<Rightarrow> int64" where
  "NextRevision revisions =
     (if length revisions \<le> 0 then 1
      else rev_revision (revisions ! (length revisions - 1)) + 1)"

section \<open>DoItSlowly\<close>

text \<open>
  \<open>fn\<close> transforms a state and returns an error or nothing.  The goroutines of one batch run in
  some order and all of them finish before the batch is judged; the model takes them one after the
  other, \<open>errCh\<close> being the list of their errors in that order.
\<close>

fun run_batch :: "nat \<Rightarrow> 's attempt \<Rightarrow> 's \<Rightarrow> go_error list \<times> 's" where
  "run_batch 0 fn s = ([], s)"
| "run_batch (Suc n) fn s =
     (case fn s of
        (r, s') \<Rightarrow>
          (case run_batch n fn s' of
             (errs, s'') \<Rightarrow> ((case r of None \<Rightarrow> errs | Some e \<Rightarrow> e # errs), s'')))"

function slow_batches ::
  "'s attempt \<Rightarrow> nat \<Rightarrow> nat \<Rightarrow> nat \<Rightarrow> 's \<Rightarrow> (nat \<times> go_error option) \<times> 's" where
  "slow_batches fn batchSize remaining successes s =
     (if batchSize > 0
      then (case run_batch batchSize fn s of
              (errCh, s') \<Rightarrow>
                (let successes' = successes + (batchSize - length errCh)
                 in if length errCh > 0 then ((successes', Some (hd errCh)), s')
                    else let remaining' = remaining - batchSize
                         in slow_batches fn (min (2 * batchSize) remaining') remaining' successes' s'))
      else ((successes, None), s))"
  by pat_completeness auto
termination
  by (relation "measure (\<lambda>(fn, batchSize, remaining, successes, s).
        remaining + (if batchSize > 0 then 1 else 0))") auto

declare slow_batches.simps [simp del]

definition DoItSlowly ::
  "nat \<Rightarrow> nat \<Rightarrow> 's attempt \<Rightarrow> 's \<Rightarrow> (nat \<times> go_error option) \<times> 's" where
  "DoItSlowly n_calls initialBatchSize fn s =
     slow_batches fn (min n_calls initialBatchSize) n_calls 0 s"

text \<open>The function with a counter of its calls.\<close>

definition counted :: "'s attempt \<Rightarrow> (nat \<times> 's) attempt" where
  "counted fn = (\<lambda>(n, s). case fn s of (r, s') \<Rightarrow> (r, (Suc n, s')))"

lemma run_batch_Suc:
  "fst (run_batch (Suc n) fn s) =
     (case fst (fn s) of None \<Rightarrow> fst (run_batch n fn (snd (fn s)))
      | Some e \<Rightarrow> e # fst (run_batch n fn (snd (fn s))))"
  "snd (run_batch (Suc n) fn s) = snd (run_batch n fn (snd (fn s)))"
  by (simp_all add: case_prod_beta)

lemma run_batch_length: "length (fst (run_batch n fn s)) \<le> n"
proof (induction n arbitrary: s)
  case 0
  then show ?case by simp
next
  case (Suc n)
  from Suc [of "snd (fn s)"] show ?case
    unfolding run_batch_Suc by (auto split: option.splits)
qed

lemma run_batch_counted:
  "run_batch n (counted fn) (k, s) =
     (fst (run_batch n fn s), (k + n, snd (run_batch n fn s)))"
  by (induction n arbitrary: k s) (auto simp: counted_def split: prod.splits option.splits)

lemma run_batch_invariant:
  assumes "\<And>s. I s \<Longrightarrow> I (snd (fn s))" and "I s"
  shows "I (snd (run_batch n fn s))"
  using assms(2)
proof (induction n arbitrary: s)
  case 0
  then show ?case by simp
next
  case (Suc n)
  show ?case unfolding run_batch_Suc by (rule Suc.IH) (rule assms(1) [OF Suc.prems])
qed

lemma slow_batches_invariant:
  assumes "\<And>s. I s \<Longrightarrow> I (snd (fn s))" and "I s"
  shows "I (snd (slow_batches fn b remaining succ s))"
  using assms(2)
proof (induction remaining arbitrary: b succ s rule: less_induct)
  case (less remaining)
  have I: "I (snd (run_batch b fn s))"
    using assms(1) less.prems by (rule run_batch_invariant)
  show ?case
  proof (cases "b = 0 \<or> remaining = 0")
    case True
    then show ?thesis
      using I less.prems
      by (auto simp: slow_batches.simps [of fn b remaining succ s]
          slow_batches.simps [of fn 0] Let_def split: prod.splits)
  next
    case False
    then have lt: "remaining - b < remaining" by simp
    show ?thesis
      using less.IH [OF lt I] False I less.prems
      by (auto simp: slow_batches.simps [of fn b remaining succ s] Let_def split: prod.splits)
  qed
qed

lemma slow_batches_counts:
  assumes "b \<le> k + 1" "b \<le> remaining" "0 < remaining \<Longrightarrow> 0 < b"
    and "slow_batches (counted fn) b remaining k (k, s) = ((n, err), (calls, s'))"
  shows "if err = None then n = k + remaining \<and> calls = k + remaining
    else n < calls \<and> calls \<le> 2 * n + 1 \<and> calls \<le> k + remaining"
  using assms
proof (induction remaining arbitrary: b k s rule: less_induct)
  case (less remaining)
  note step = slow_batches.simps [of "counted fn" b remaining k "(k, s)"]
  show ?case
  proof (cases "b = 0")
    case True
    with less.prems(3) have "remaining = 0" by blast
    with True less.prems show ?thesis unfolding step by auto
  next
    case False
    let ?errs = "fst (run_batch b fn s)" and ?s1 = "snd (run_batch b fn s)"
    have le: "length ?errs \<le> b" by (rule run_batch_length)
    show ?thesis
    proof (cases "?errs = []")
      case True
      let ?b' = "min (2 * b) (remaining - b)"
      have next_run: "slow_batches (counted fn) ?b' (remaining - b) (k + b) (k + b, ?s1)
          = ((n, err), (calls, s'))"
        using less.prems(4) False True unfolding step by (simp add: run_batch_counted Let_def)
      have "if err = None then n = (k + b) + (remaining - b) \<and> calls = (k + b) + (remaining - b)
        else n < calls \<and> calls \<le> 2 * n + 1 \<and> calls \<le> (k + b) + (remaining - b)"
      proof (rule less.IH [OF _ _ _ _ next_run])
        show "remaining - b < remaining" using False less.prems(2) by simp
        show "?b' \<le> k + b + 1" using less.prems(1) by simp
        show "?b' \<le> remaining - b" by simp
        show "0 < remaining - b \<Longrightarrow> 0 < ?b'" using False by simp
      qed
      with less.prems(2) show ?thesis by (simp split: if_splits)
    next
      case errs: False
      then have pos: "0 < length ?errs" by simp
      from errs have "n = k + (b - length ?errs) \<and> calls = k + b \<and> err \<noteq> None"
        using less.prems(4) False unfolding step by (auto simp: run_batch_counted Let_def)
      moreover have "k + (b - length ?errs) < k + b" using le pos False by linarith
      ultimately show ?thesis using less.prems(1,2) by (auto simp del: fst_conv)
    qed
  qed
qed

section \<open>Properties\<close>

text \<open>
  \<open>DoItSlowly\<close> with an initial batch of one (as the scale control uses it) makes exactly
  \<open>n_calls\<close> calls, all successful, when it reports no error.  When it reports one it stopped early:
  it made at most \<open>n_calls\<close> calls, some call failed, and the calls made are at most twice the
  successful ones plus one, so a server that rejects everything is called once.
\<close>

theorem do_it_slowly_call_bound:
  "case DoItSlowly n_calls 1 (counted fn) (0, s) of
     ((successes, err), (calls, s')) \<Rightarrow>
       (if err = None then successes = n_calls \<and> calls = n_calls
        else successes < calls \<and> calls \<le> 2 * successes + 1 \<and> calls \<le> n_calls)"
proof -
  obtain n err calls s' where run: "DoItSlowly n_calls 1 (counted fn) (0, s) = ((n, err), (calls, s'))"
    by (metis prod.collapse)
  have "if err = None then n = 0 + n_calls \<and> calls = 0 + n_calls
    else n < calls \<and> calls \<le> 2 * n + 1 \<and> calls \<le> 0 + n_calls"
    by (rule slow_batches_counts [of "min n_calls 1" 0 n_calls fn s n err calls s'])
      (use run in \<open>auto simp: DoItSlowly_def\<close>)
  with run show ?thesis by (cases err) simp_all
qed

end
