(* ===== verification/Sample.thy ===== *)
theory Sample
  imports External
begin

text \<open>
  Concrete inputs on which the witnesses evaluate the properties: a pod, an Inplaceu resource, and
  instances of the library records with simple functions that meet the documented behaviour.
\<close>

definition sample_pod :: "string \<Rightarrow> pod_phase \<Rightarrow> str_map \<Rightarrow> pod" where
  "sample_pod name phase lbls =
     \<lparr>pod_name = name, pod_namespace = ''ns'', pod_uid = name, pod_rv = ''7'',
      pod_labels = lbls, pod_annotations = None, pod_deletion = None, pod_creation = 100,
      pod_owners = [], pod_node = ''n1'', pod_containers = [], pod_phase = phase,
      pod_conditions = [], pod_container_statuses = []\<rparr>"

definition sample_pod_lib :: pod_lib where
  "sample_pod_lib =
     \<lparr>is_pod_ready = (\<lambda>p. list_ex (\<lambda>c. pc_type c = ''Ready'' \<and> pc_status c = ''True'') (pod_conditions p)),
      is_pod_available = (\<lambda>p mrs now. pod_phase p = PodRunning),
      is_pod_active = (\<lambda>p. pod_phase p \<noteq> PodSucceeded \<and> pod_phase p \<noteq> PodFailed \<and> pod_deletion p = None),
      active_pods_less = (\<lambda>p q. pod_creation p < pod_creation q),
      scaled_value = (\<lambda>v total up. case v of IntVal w \<Rightarrow> sint w | StrVal s \<Rightarrow> 0),
      sort_pods = insertion_sort,
      sort_indexes = insertion_sort\<rparr>"

lemma sample_pod_lib_sorts:
  "sort_contract (sort_pods sample_pod_lib)" "sort_contract (sort_indexes sample_pod_lib)"
  by (simp_all add: sample_pod_lib_def insertion_sort_contract)

definition sample_owner :: owner_ref where
  "sample_owner =
     \<lparr>or_api_version = ''batch.inplace.kubebuilder.io/v1'', or_kind = ''Inplaceu'', or_name = ''web'',
      or_uid = ''iu-1'', or_controller = Some True, or_block_deletion = Some True\<rparr>"

definition sample_template :: pod_template where
  "sample_template = \<lparr>tpl_labels = Some [''app'' \<mapsto> ''web''], tpl_annotations = None,
     tpl_containers = [\<lparr>ct_name = ''main'', ct_image = ''nginx:1''\<rparr>]\<rparr>"

definition sample_status :: inplaceu_status where
  "sample_status =
     \<lparr>st_observed_generation = 1, st_replicas = 0, st_updated_replicas = 0, st_ready_replicas = 0,
      st_available_replicas = 0, st_unavailable_replicas = 0, st_terminating_replicas = None,
      st_conditions = [], st_collision_count = None, st_update_revision = [], st_current_revision = []\<rparr>"

definition sample_iu :: "int32 option \<Rightarrow> rolling_update option \<Rightarrow> inplaceu" where
  "sample_iu replicas ru =
     \<lparr>iu_name = ''web'', iu_namespace = ''ns'', iu_uid = ''iu-1'', iu_generation = 1,
      iu_deletion = None, iu_labels = None, iu_annotations = None,
      iu_spec = \<lparr>sp_replicas = replicas, sp_selector = Some ''app=web'', sp_template = sample_template,
        sp_strategy = \<lparr>ds_type = ''RollingUpdate'', ds_rolling_update = ru\<rparr>,
        sp_min_ready_seconds = 0, sp_revision_history_limit = None, sp_paused = False,
        sp_progress_deadline_seconds = None\<rparr>,
      iu_status = sample_status\<rparr>"

definition sample_rolling :: "int32 \<Rightarrow> int32 \<Rightarrow> rolling_update option" where
  "sample_rolling unavailable surge =
     Some \<lparr>ru_max_unavailable = Some (IntVal unavailable), ru_max_surge = Some (IntVal surge)\<rparr>"

definition sample_meta_lib :: meta_lib where
  "sample_meta_lib =
     \<lparr>controller_of = find (\<lambda>r. or_controller r = Some True),
      namespaced_name = (\<lambda>ns n. ns @ ''/'' @ n),
      as_selector = (\<lambda>s. case s of None \<Rightarrow> Inr [] | Some t \<Rightarrow> Inr t),
      selector_empty = (\<lambda>s. s = []),
      selector_matches = (\<lambda>s lbls. s = ''app=web'' \<and> map_get lbls ''app'' = ''web''),
      group_of_version = (\<lambda>v. Some (hd (split_on (CHR ''/'') v))),
      pod_from_template = (\<lambda>t iu ref. (sample_pod [] PodPending (tpl_labels t))
         \<lparr>pod_owners := [ref], pod_containers := tpl_containers t, pod_node := []\<rparr>),
      new_controller_ref = (\<lambda>iu. sample_owner\<lparr>or_name := iu_name iu, or_uid := iu_uid iu\<rparr>)\<rparr>"

lemma sample_meta_lib_controller_of: "controller_of_contract sample_meta_lib"
  by (simp add: controller_of_contract_def sample_meta_lib_def)

end
