(* ===== verification/Scale_Diff.thy ===== *)
theory Scale_Diff
  imports Pod_Groups Sample
begin

text \<open>
  \<open>internal/sync/inplaceu_scale_util.go\<close>: how many pods to create, delete and update, from the
  spec and the pods.  Both the scale and the update control start from it.  Go's \<open>int\<close> is
  modelled by \<open>int\<close>; \<open>calculate_diffs_ranges\<close> shows that no field leaves the 64-bit range.
\<close>

section \<open>Definitions\<close>

record expectation_diffs =
  scaleUpNum :: int
  scaleDownNum :: int
  deleteReadyLimit :: int
  useSurge :: int
  updateNum :: int
  updateMaxUnavailable :: int

definition empty_diffs :: expectation_diffs where
  "empty_diffs = \<lparr>scaleUpNum = 0, scaleDownNum = 0, deleteReadyLimit = 0, useSurge = 0,
     updateNum = 0, updateMaxUnavailable = 0\<rparr>"

definition diffs_isEmpty :: "expectation_diffs \<Rightarrow> bool" where
  "diffs_isEmpty e = (e = empty_diffs)"

text \<open>The six counters of the loop over the pods.\<close>

record pod_counts =
  newRevisionCount :: int
  oldRevisionCount :: int
  unavailableNewRevisionCount :: int
  unavailableOldRevisionCount :: int
  toDeleteNewRevisionCount :: int
  toDeleteOldRevisionCount :: int

definition no_counts :: pod_counts where
  "no_counts = \<lparr>newRevisionCount = 0, oldRevisionCount = 0, unavailableNewRevisionCount = 0,
     unavailableOldRevisionCount = 0, toDeleteNewRevisionCount = 0, toDeleteOldRevisionCount = 0\<rparr>"

definition count_pod :: "string \<Rightarrow> pod_counts \<Rightarrow> pod \<Rightarrow> pod_counts" where
  "count_pod updateRevision c p =
     (if is_pod_update updateRevision p
      then let c = c\<lparr>newRevisionCount := newRevisionCount c + 1\<rparr>
           in if IsSpecifiedDelete p
              then c\<lparr>toDeleteNewRevisionCount := toDeleteNewRevisionCount c + 1\<rparr>
              else if \<not> IsRunning p
              then c\<lparr>unavailableNewRevisionCount := unavailableNewRevisionCount c + 1\<rparr>
              else c
      else let c = c\<lparr>oldRevisionCount := oldRevisionCount c + 1\<rparr>
           in if IsSpecifiedDelete p
              then c\<lparr>toDeleteOldRevisionCount := toDeleteOldRevisionCount c + 1\<rparr>
              else if \<not> IsRunning p
              then c\<lparr>unavailableOldRevisionCount := unavailableOldRevisionCount c + 1\<rparr>
              else c)"

definition count_pods :: "string \<Rightarrow> pod list \<Rightarrow> pod_counts" where
  "count_pods updateRevision pods = foldl (count_pod updateRevision) no_counts pods"

definition surge_used :: "int \<Rightarrow> pod_counts \<Rightarrow> int" where
  "surge_used maxSurge c =
     (if maxSurge > 0
      then let toDeleteCount = toDeleteNewRevisionCount c + toDeleteOldRevisionCount c;
               surge = (if toDeleteCount > 0 then toDeleteCount else 0);
               surge = (if oldRevisionCount c > toDeleteOldRevisionCount c
                        then max surge (oldRevisionCount c - toDeleteOldRevisionCount c)
                        else surge)
           in min surge maxSurge
      else 0)"

definition diffs_of_counts :: "int \<Rightarrow> int \<Rightarrow> int \<Rightarrow> int \<Rightarrow> pod_counts \<Rightarrow> expectation_diffs" where
  "diffs_of_counts replicas maxSurge maxUnavailable n c =
     (let surge = surge_used maxSurge c;
          currentTotalCount = n;
          expectedTotalCount = replicas + surge;
          num = expectedTotalCount - currentTotalCount;
          downNum = currentTotalCount - expectedTotalCount -
                    toDeleteNewRevisionCount c - toDeleteOldRevisionCount c;
          up = (if num > 0 then num else 0);
          down = (if num > 0 then 0 else if downNum > 0 then downNum else 0);
          totalUnavailable = unavailableOldRevisionCount c + unavailableNewRevisionCount c;
          limit = (if toDeleteNewRevisionCount c > 0 \<or> toDeleteOldRevisionCount c > 0 \<or> down > 0
                   then max (maxUnavailable + (n - replicas) - totalUnavailable) 0 else 0);
          waiting = oldRevisionCount c > toDeleteOldRevisionCount c
      in \<lparr>scaleUpNum = up, scaleDownNum = down, deleteReadyLimit = limit, useSurge = surge,
          updateNum = (if waiting then oldRevisionCount c - toDeleteOldRevisionCount c else 0),
          updateMaxUnavailable = (if waiting then maxUnavailable + n - replicas else 0)\<rparr>)"

definition max_surge :: "pod_lib \<Rightarrow> rolling_update \<Rightarrow> int \<Rightarrow> int" where
  "max_surge L ru replicas =
     (case ru_max_surge ru of Some v \<Rightarrow> scaled_value L v replicas True | None \<Rightarrow> 0)"

definition max_unavailable :: "pod_lib \<Rightarrow> rolling_update \<Rightarrow> int \<Rightarrow> int" where
  "max_unavailable L ru replicas =
     scaled_value L (case ru_max_unavailable ru of Some v \<Rightarrow> v | None \<Rightarrow> IntVal 0)
       replicas (max_surge L ru replicas = 0)"

text \<open>
  The argument \<open>currentRevision\<close> is not used by the code.  \<open>Spec.Replicas\<close> and
  \<open>Spec.Strategy.RollingUpdate\<close> are pointers that are dereferenced without a test.
\<close>

definition calculateDiffsWithExpectation ::
  "pod_lib \<Rightarrow> inplaceu \<Rightarrow> pod list \<Rightarrow> string \<Rightarrow> string \<Rightarrow> expectation_diffs may_panic" where
  "calculateDiffsWithExpectation L iu pods currentRevision updateRevision =
     bindP (deref (sp_replicas (iu_spec iu))) (\<lambda>r.
     let replicas = sint r in
     bindP (deref (ds_rolling_update (sp_strategy (iu_spec iu)))) (\<lambda>ru.
     Inr (diffs_of_counts replicas (max_surge L ru replicas) (max_unavailable L ru replicas)
            (int (length pods)) (count_pods updateRevision pods))))"

section \<open>The counters count\<close>

definition count_where :: "('a \<Rightarrow> bool) \<Rightarrow> 'a list \<Rightarrow> int" where
  "count_where P xs = int (length (filter P xs))"

lemma count_where_simps [simp]:
  "count_where P [] = 0"
  "count_where P (x # xs) = (if P x then 1 else 0) + count_where P xs"
  "count_where P (xs @ ys) = count_where P xs + count_where P ys"
  by (simp_all add: count_where_def)

lemma count_where_bounds: "0 \<le> count_where P xs" "count_where P xs \<le> int (length xs)"
  by (simp_all add: count_where_def)

lemma count_where_split: "count_where P xs = count_where (\<lambda>x. P x \<and> Q x) xs + count_where (\<lambda>x. P x \<and> \<not> Q x) xs"
  by (induction xs) auto

lemma count_where_zero: "count_where P xs = 0 \<longleftrightarrow> list_all (\<lambda>x. \<not> P x) xs"
  by (auto simp: count_where_def list_all_iff filter_empty_conv)

lemma count_where_all: "count_where P xs = int (length xs) \<longleftrightarrow> list_all P xs"
proof (induction xs)
  case (Cons x xs)
  then show ?case using count_where_bounds [of P xs] by auto
qed simp

lemma count_pods_fold:
  "foldl (count_pod r) c pods =
    \<lparr>newRevisionCount = newRevisionCount c + count_where (is_pod_update r) pods,
     oldRevisionCount = oldRevisionCount c + count_where (\<lambda>p. \<not> is_pod_update r p) pods,
     unavailableNewRevisionCount = unavailableNewRevisionCount c +
       count_where (\<lambda>p. is_pod_update r p \<and> \<not> IsSpecifiedDelete p \<and> \<not> IsRunning p) pods,
     unavailableOldRevisionCount = unavailableOldRevisionCount c +
       count_where (\<lambda>p. \<not> is_pod_update r p \<and> \<not> IsSpecifiedDelete p \<and> \<not> IsRunning p) pods,
     toDeleteNewRevisionCount = toDeleteNewRevisionCount c +
       count_where (\<lambda>p. is_pod_update r p \<and> IsSpecifiedDelete p) pods,
     toDeleteOldRevisionCount = toDeleteOldRevisionCount c +
       count_where (\<lambda>p. \<not> is_pod_update r p \<and> IsSpecifiedDelete p) pods\<rparr>"
  by (induction pods arbitrary: c) (auto simp: count_pod_def Let_def)

text \<open>The quantities the properties speak about.\<close>

definition old_count :: "string \<Rightarrow> pod list \<Rightarrow> int" where
  "old_count r pods = count_where (\<lambda>p. \<not> is_pod_update r p) pods"

definition waiting_count :: "string \<Rightarrow> pod list \<Rightarrow> int" where
  "waiting_count r pods = count_where (\<lambda>p. \<not> is_pod_update r p \<and> \<not> IsSpecifiedDelete p) pods"

definition to_delete_count :: "pod list \<Rightarrow> int" where
  "to_delete_count pods = count_where IsSpecifiedDelete pods"

definition unavailable_count :: "pod list \<Rightarrow> int" where
  "unavailable_count pods = count_where (\<lambda>p. \<not> IsSpecifiedDelete p \<and> \<not> IsRunning p) pods"

lemma count_where_by_revision:
  "count_where P pods = count_where (\<lambda>p. is_pod_update r p \<and> P p) pods +
     count_where (\<lambda>p. \<not> is_pod_update r p \<and> P p) pods"
  by (induction pods) auto

lemma count_pods_sums:
  "toDeleteNewRevisionCount (count_pods r pods) + toDeleteOldRevisionCount (count_pods r pods) =
     to_delete_count pods"
  "unavailableOldRevisionCount (count_pods r pods) + unavailableNewRevisionCount (count_pods r pods) =
     unavailable_count pods"
  "oldRevisionCount (count_pods r pods) - toDeleteOldRevisionCount (count_pods r pods) =
     waiting_count r pods"
  "newRevisionCount (count_pods r pods) + oldRevisionCount (count_pods r pods) = int (length pods)"
proof -
  note defs = count_pods_def count_pods_fold no_counts_def to_delete_count_def
    unavailable_count_def waiting_count_def
  show "toDeleteNewRevisionCount (count_pods r pods) + toDeleteOldRevisionCount (count_pods r pods) =
     to_delete_count pods"
    using count_where_by_revision [of IsSpecifiedDelete pods r] by (simp add: defs)
  show "unavailableOldRevisionCount (count_pods r pods) + unavailableNewRevisionCount (count_pods r pods) =
     unavailable_count pods"
    using count_where_by_revision [of "\<lambda>p. \<not> IsSpecifiedDelete p \<and> \<not> IsRunning p" pods r]
    by (simp add: defs)
  show "oldRevisionCount (count_pods r pods) - toDeleteOldRevisionCount (count_pods r pods) =
     waiting_count r pods"
    using count_where_split [of "\<lambda>p. \<not> is_pod_update r p" pods IsSpecifiedDelete]
    by (simp add: defs)
  show "newRevisionCount (count_pods r pods) + oldRevisionCount (count_pods r pods) = int (length pods)"
    by (simp add: defs) (induction pods; simp)
qed

lemma count_pods_nonneg:
  "0 \<le> toDeleteNewRevisionCount (count_pods r pods)"
  "0 \<le> toDeleteOldRevisionCount (count_pods r pods)"
  by (simp_all add: count_pods_def count_pods_fold no_counts_def count_where_bounds)

text \<open>The whole calculation in terms of those quantities.\<close>

definition spec_surge :: "int \<Rightarrow> string \<Rightarrow> pod list \<Rightarrow> int" where
  "spec_surge maxSurge r pods =
     (if maxSurge > 0 then min maxSurge (max (to_delete_count pods) (waiting_count r pods)) else 0)"

lemma pod_quantities_nonneg:
  "0 \<le> to_delete_count pods" "0 \<le> waiting_count r pods" "0 \<le> unavailable_count pods"
  by (simp_all add: to_delete_count_def waiting_count_def unavailable_count_def count_where_bounds)

lemma pod_quantities_le:
  "to_delete_count pods \<le> int (length pods)" "waiting_count r pods \<le> int (length pods)"
  "unavailable_count pods \<le> int (length pods)"
  by (simp_all add: to_delete_count_def waiting_count_def unavailable_count_def count_where_bounds)

lemma surge_used_spec: "surge_used maxSurge (count_pods r pods) = spec_surge maxSurge r pods"
proof -
  let ?c = "count_pods r pods"
  have w: "oldRevisionCount ?c > toDeleteOldRevisionCount ?c \<longleftrightarrow> 0 < waiting_count r pods"
    using count_pods_sums(3) [of r pods] by linarith
  show ?thesis
    using pod_quantities_nonneg(1,3) [of pods] pod_quantities_nonneg(2) [of r pods]
    unfolding surge_used_def spec_surge_def w count_pods_sums Let_def
    by (auto simp: count_pods_sums)
qed

lemma diffs_of_counts_spec:
  fixes replicas maxSurge maxUnavailable :: int
  defines "n \<equiv> \<lambda>pods :: pod list. int (length pods)"
  shows "diffs_of_counts replicas maxSurge maxUnavailable (n pods) (count_pods r pods) =
    (let surge = spec_surge maxSurge r pods;
         td = to_delete_count pods;
         up = max 0 (replicas + surge - n pods);
         down = max 0 (n pods - replicas - surge - td)
     in \<lparr>scaleUpNum = up, scaleDownNum = down,
         deleteReadyLimit = (if td > 0 \<or> down > 0
            then max 0 (maxUnavailable + n pods - replicas - unavailable_count pods) else 0),
         useSurge = surge,
         updateNum = waiting_count r pods,
         updateMaxUnavailable = (if waiting_count r pods > 0 then maxUnavailable + n pods - replicas else 0)\<rparr>)"
proof -
  let ?c = "count_pods r pods"
  have w: "oldRevisionCount ?c > toDeleteOldRevisionCount ?c \<longleftrightarrow> 0 < waiting_count r pods"
    using count_pods_sums(3) [of r pods] by linarith
  have td: "toDeleteNewRevisionCount ?c > 0 \<or> toDeleteOldRevisionCount ?c > 0 \<longleftrightarrow>
      0 < to_delete_count pods"
    using count_pods_sums(1) [of r pods] count_pods_nonneg [of r pods] by linarith
  have down: "x - toDeleteNewRevisionCount ?c - toDeleteOldRevisionCount ?c = x - to_delete_count pods" for x
    using count_pods_sums(1) [of r pods] by linarith
  have td': "toDeleteNewRevisionCount ?c > 0 \<or> toDeleteOldRevisionCount ?c > 0 \<or> X \<longleftrightarrow>
      0 < to_delete_count pods \<or> X" for X
    using td by blast
  have nn: "0 \<le> to_delete_count pods" "0 \<le> waiting_count r pods"
    by (rule pod_quantities_nonneg)+
  show ?thesis
    unfolding diffs_of_counts_def surge_used_spec w td' down count_pods_sums Let_def n_def
    using nn by (auto simp: max_def)
qed

lemma calculateDiffs_eq:
  assumes "sp_replicas (iu_spec iu) = Some rs"
    and "ds_rolling_update (sp_strategy (iu_spec iu)) = Some ru"
  shows "calculateDiffsWithExpectation L iu pods cur r =
    Inr (diffs_of_counts (sint rs) (max_surge L ru (sint rs)) (max_unavailable L ru (sint rs))
      (int (length pods)) (count_pods r pods))"
  using assms by (simp add: calculateDiffsWithExpectation_def Let_def)

section \<open>Properties\<close>

text \<open>
  C22: The numbers to create and to delete lead to the same total: never both are positive; creating
  \<open>scaleUpNum\<close> pods gives exactly the desired replicas plus the surge in use; deleting
  \<open>scaleDownNum\<close> pods together with the pods already marked for deletion gives that total too; and
  when neither is asked for, the total lies between the pods that stay and the pods there are.
\<close>

theorem calculate_diffs_reach_target:
  assumes "calculateDiffsWithExpectation L iu pods cur r = Inr d"
    and "sp_replicas (iu_spec iu) = Some rs"
    and "target = sint rs + useSurge d"
    and "n = int (length pods)"
  shows "(if scaleUpNum d > 0 then scaleDownNum d = 0 \<and> n + scaleUpNum d = target
    else if scaleDownNum d > 0 then n - to_delete_count pods - scaleDownNum d = target
    else n - to_delete_count pods \<le> target \<and> target \<le> n)"
proof -
  obtain ru where ru: "ds_rolling_update (sp_strategy (iu_spec iu)) = Some ru"
    using assms(1,2) by (cases "ds_rolling_update (sp_strategy (iu_spec iu))")
      (auto simp: calculateDiffsWithExpectation_def Let_def)
  show ?thesis
    using assms(1) pod_quantities_nonneg(1) [of pods]
    unfolding calculateDiffs_eq [OF assms(2) ru] diffs_of_counts_spec Let_def assms(3,4)
    by auto
qed

theorem calculate_diffs_reach_target_witness:
  "\<exists>d. calculateDiffsWithExpectation sample_pod_lib (sample_iu (Some 3) (sample_rolling 1 1))
      [sample_pod ''a'' PodRunning None] ''r1'' ''r2'' = Inr d \<and> 1 + scaleUpNum d = 3 + useSurge d"
proof -
  let ?iu = "sample_iu (Some 3) (sample_rolling 1 1)" and ?pods = "[sample_pod ''a'' PodRunning None]"
  obtain ru where ru: "ds_rolling_update (sp_strategy (iu_spec ?iu)) = Some ru"
    by (simp add: sample_iu_def sample_rolling_def)
  have rs: "sp_replicas (iu_spec ?iu) = Some 3" by (simp add: sample_iu_def)
  obtain d where d: "calculateDiffsWithExpectation sample_pod_lib ?iu ?pods ''r1'' ''r2'' = Inr d"
    using calculateDiffs_eq [OF rs ru] by blast
  have up: "scaleUpNum d > 0"
    using d pod_quantities_nonneg(1) [of ?pods] unfolding calculateDiffs_eq [OF rs ru] diffs_of_counts_spec
    by (auto simp: Let_def spec_surge_def max_def)
  from calculate_diffs_reach_target [OF d rs refl refl] up
  have "1 + scaleUpNum d = 3 + useSurge d" by simp
  with d show ?thesis by blast
qed

text \<open>
  With a positive surge, nothing is asked for exactly in the converged state: as many pods as
  desired, all of the update revision, none marked for deletion.  No other state is mistaken for
  converged.
\<close>

theorem calculate_diffs_empty_iff_converged:
  assumes "sp_replicas (iu_spec iu) = Some rs"
    and "ds_rolling_update (sp_strategy (iu_spec iu)) = Some ru"
    and "0 < max_surge L ru (sint rs)"
  shows "calculateDiffsWithExpectation L iu pods cur r = Inr empty_diffs \<longleftrightarrow>
    int (length pods) = sint rs \<and> list_all (is_pod_update r) pods \<and>
    list_all (\<lambda>p. \<not> IsSpecifiedDelete p) pods"
proof -
  have waiting: "waiting_count r pods = 0 \<and> to_delete_count pods = 0 \<longleftrightarrow>
      list_all (is_pod_update r) pods \<and> list_all (\<lambda>p. \<not> IsSpecifiedDelete p) pods"
    unfolding waiting_count_def to_delete_count_def count_where_zero
    by (auto simp: list_all_iff)
  have "calculateDiffsWithExpectation L iu pods cur r = Inr empty_diffs \<longleftrightarrow>
      int (length pods) = sint rs \<and> waiting_count r pods = 0 \<and> to_delete_count pods = 0"
    using pod_quantities_nonneg(1) [of pods] pod_quantities_nonneg(2) [of r pods] assms(3)
    unfolding calculateDiffs_eq [OF assms(1,2)] diffs_of_counts_spec spec_surge_def empty_diffs_def
    by (auto simp: Let_def min_def max_def split: if_splits)
  with waiting show ?thesis by blast
qed

theorem calculate_diffs_empty_iff_converged_witness:
  "calculateDiffsWithExpectation sample_pod_lib (sample_iu (Some 1) (sample_rolling 1 1))
     [sample_pod ''a'' PodPending (WriteRevisionHash None ''web-r2'')] ''web-r1'' ''web-r2'' = Inr empty_diffs"
proof -
  let ?ru = "\<lparr>ru_max_unavailable = Some (IntVal 1), ru_max_surge = Some (IntVal 1)\<rparr>"
  have "is_pod_update ''web-r2'' (sample_pod ''a'' PodPending (WriteRevisionHash None ''web-r2''))"
    by (simp add: is_pod_update_def sample_pod_def hash_adapter.equal_write)
  moreover have "\<not> IsSpecifiedDelete (sample_pod ''a'' PodPending (WriteRevisionHash None ''web-r2''))"
    by (simp add: IsSpecifiedDelete_def sample_pod_def map_has_def WriteRevisionHash_lookup)
  ultimately show ?thesis
    by (subst calculate_diffs_empty_iff_converged [of _ 1 ?ru])
      (simp_all add: sample_iu_def sample_rolling_def max_surge_def sample_pod_lib_def)
qed

text \<open>
  C33: The counts the source documents as non-negative are non-negative, the surge in use stays
  within \<open>maxSurge\<close>, and with fewer than \<open>2 ^ 31\<close> pods and a \<open>maxUnavailable\<close> of at most
  \<open>2 ^ 62\<close> in absolute value every field fits Go's 64-bit \<open>int\<close>.
\<close>

theorem calculate_diffs_ranges:
  assumes "sp_replicas (iu_spec iu) = Some rs"
    and "ds_rolling_update (sp_strategy (iu_spec iu)) = Some ru"
    and "calculateDiffsWithExpectation L iu pods cur r = Inr d"
    and "length pods < 2 ^ 31" and "\<bar>max_unavailable L ru (sint rs)\<bar> \<le> 2 ^ 62"
  shows "(0 \<le> scaleUpNum d \<and> 0 \<le> scaleDownNum d \<and> 0 \<le> deleteReadyLimit d \<and>
      0 \<le> updateNum d \<and> 0 \<le> useSurge d \<and> useSurge d \<le> max 0 (max_surge L ru (sint rs)) \<and>
      useSurge d \<le> int (length pods)) \<and>
    list_all (\<lambda>x. \<bar>x\<bar> < 2 ^ 63) [scaleUpNum d, scaleDownNum d, deleteReadyLimit d, useSurge d,
      updateNum d, updateMaxUnavailable d]"
proof -
  have rs: "- (2 ^ 31) \<le> sint rs" "sint rs < 2 ^ 31"
    using sint_greater_eq [of rs] sint_less [of rs] by simp_all
  have n: "int (length pods) < 2 ^ 31" using assms(4) by (simp flip: of_nat_less_iff)
  have s: "0 \<le> spec_surge (max_surge L ru (sint rs)) r pods"
    "spec_surge (max_surge L ru (sint rs)) r pods \<le> int (length pods)"
    "spec_surge (max_surge L ru (sint rs)) r pods \<le> max 0 (max_surge L ru (sint rs))"
    using pod_quantities_nonneg(1) [of pods] pod_quantities_nonneg(2) [of r pods]
      pod_quantities_le(1) [of pods] pod_quantities_le(2) [of r pods]
    by (auto simp: spec_surge_def)
  note q = pod_quantities_nonneg(1,3) [of pods] pod_quantities_nonneg(2) [of r pods]
    pod_quantities_le(1,3) [of pods] pod_quantities_le(2) [of r pods]
  have d: "d = (let surge = spec_surge (max_surge L ru (sint rs)) r pods;
         td = to_delete_count pods;
         up = max 0 (sint rs + surge - int (length pods));
         down = max 0 (int (length pods) - sint rs - surge - td)
     in \<lparr>scaleUpNum = up, scaleDownNum = down,
         deleteReadyLimit = (if td > 0 \<or> down > 0
            then max 0 (max_unavailable L ru (sint rs) + int (length pods) - sint rs - unavailable_count pods) else 0),
         useSurge = surge,
         updateNum = waiting_count r pods,
         updateMaxUnavailable = (if waiting_count r pods > 0
            then max_unavailable L ru (sint rs) + int (length pods) - sint rs else 0)\<rparr>)"
    using assms(3) unfolding calculateDiffs_eq [OF assms(1,2)] diffs_of_counts_spec by simp
  have mu: "- (2 ^ 62) \<le> max_unavailable L ru (sint rs)" "max_unavailable L ru (sint rs) \<le> 2 ^ 62"
    using assms(5) by (simp_all add: abs_le_iff)
  have abs_max: "\<bar>max 0 x\<bar> < 2 ^ 63" if "x < 2 ^ 63" for x :: int
    using that by (simp add: abs_less_iff)
  let ?n = "int (length pods)" and ?s = "spec_surge (max_surge L ru (sint rs)) r pods"
    and ?mu = "max_unavailable L ru (sint rs)"
  have P: "(2 :: int) ^ 31 = 2147483648" "(2 :: int) ^ 62 = 4611686018427387904"
    "(2 :: int) ^ 63 = 9223372036854775808"
    by simp_all
  have b1: "sint rs + ?s - ?n < 2 ^ 63" using s rs n unfolding P by linarith
  have b2: "?n - sint rs - ?s - to_delete_count pods < 2 ^ 63" using s rs n q unfolding P by linarith
  have b3: "?mu + ?n - sint rs - unavailable_count pods < 2 ^ 63" using s rs n q mu unfolding P by linarith
  have b4: "\<bar>?s\<bar> < 2 ^ 63" using s(1,2) n unfolding P by linarith
  have b5: "\<bar>waiting_count r pods\<bar> < 2 ^ 63" using q n unfolding P by linarith
  have b6: "\<bar>?mu + ?n - sint rs\<bar> < 2 ^ 63" using rs n mu unfolding abs_less_iff P by linarith
  have "list_all (\<lambda>x. \<bar>x\<bar> < 2 ^ 63) [scaleUpNum d, scaleDownNum d, deleteReadyLimit d, useSurge d,
      updateNum d, updateMaxUnavailable d]"
    using abs_max [OF b1] abs_max [OF b2] abs_max [OF b3] b4 b5 b6 unfolding d Let_def by simp
  moreover have "0 \<le> scaleUpNum d \<and> 0 \<le> scaleDownNum d \<and> 0 \<le> deleteReadyLimit d \<and>
      0 \<le> updateNum d \<and> 0 \<le> useSurge d \<and> useSurge d \<le> max 0 (max_surge L ru (sint rs)) \<and>
      useSurge d \<le> int (length pods)"
    using s q unfolding d Let_def by simp
  ultimately show ?thesis by blast
qed

theorem calculate_diffs_ranges_witness:
  "\<exists>d. calculateDiffsWithExpectation sample_pod_lib (sample_iu (Some 3) (sample_rolling 1 2)) []
      ''r1'' ''r2'' = Inr d \<and> 0 \<le> scaleUpNum d \<and> useSurge d \<le> 2"
proof -
  let ?ru = "\<lparr>ru_max_unavailable = Some (IntVal 1), ru_max_surge = Some (IntVal 2)\<rparr>"
  let ?iu = "sample_iu (Some 3) (sample_rolling 1 2)"
  have rs: "sp_replicas (iu_spec ?iu) = Some 3"
    and ru: "ds_rolling_update (sp_strategy (iu_spec ?iu)) = Some ?ru"
    by (simp_all add: sample_iu_def sample_rolling_def)
  obtain d where d: "calculateDiffsWithExpectation sample_pod_lib ?iu [] ''r1'' ''r2'' = Inr d"
    using calculateDiffs_eq [OF rs ru] by blast
  from calculate_diffs_ranges [OF rs ru d] have "0 \<le> scaleUpNum d \<and> useSurge d \<le> 2"
    by (auto simp: max_unavailable_def max_surge_def sample_pod_lib_def list_all_iff)
  with d show ?thesis by blast
qed

text \<open>
  The calculation panics exactly when the resource leaves \<open>spec.replicas\<close> or
  \<open>spec.strategy.rollingUpdate\<close> unset, both of which the API type allows; otherwise it returns.
\<close>

theorem calculate_diffs_panics_iff_unset:
  "calculateDiffsWithExpectation L iu pods cur r =
     (if sp_replicas (iu_spec iu) = None \<or> ds_rolling_update (sp_strategy (iu_spec iu)) = None
      then Inl NilDereference
      else Inr (diffs_of_counts (sint (the (sp_replicas (iu_spec iu))))
        (max_surge L (the (ds_rolling_update (sp_strategy (iu_spec iu)))) (sint (the (sp_replicas (iu_spec iu)))))
        (max_unavailable L (the (ds_rolling_update (sp_strategy (iu_spec iu)))) (sint (the (sp_replicas (iu_spec iu)))))
        (int (length pods)) (count_pods r pods)))"
  by (cases "sp_replicas (iu_spec iu)"; cases "ds_rolling_update (sp_strategy (iu_spec iu))")
    (simp_all add: calculateDiffsWithExpectation_def Let_def)

end
