(* ===== verification/Inplaceu_Core.thy ===== *)
theory Inplaceu_Core
  imports Pod_Groups Sample
begin

text \<open>
  \<open>internal/inplaceu_core/inplaceu_core.go\<close>: \<open>commonControl\<close>, the pods it creates for a revision
  and the order in which pods are updated.  \<open>SetRevisionTemplate\<close> and \<open>ApplyRevisionPatch\<close> work
  on encoded revisions and are not part of this theory.
\<close>

section \<open>Definitions\<close>

definition IsInitializing :: "inplaceu \<Rightarrow> bool" where
  "IsInitializing iu = False"

definition IsReadyToScale :: "inplaceu \<Rightarrow> bool" where
  "IsReadyToScale iu = True"

definition IsPodUpdatePaused :: "inplaceu \<Rightarrow> pod \<Rightarrow> bool" where
  "IsPodUpdatePaused iu p = False"

text \<open>One pod of the loop in \<open>newVersionedPods\<close>; the error of \<open>GetPodFromTemplate\<close> is dropped.\<close>

definition new_versioned_pod :: "meta_lib \<Rightarrow> inplaceu \<Rightarrow> string \<Rightarrow> string \<Rightarrow> pod" where
  "new_versioned_pod M iu revision iid =
     (let p = pod_from_template M (sp_template (iu_spec iu)) iu (new_controller_ref M iu);
          p = p\<lparr>pod_labels := ensure_map (pod_labels p)\<rparr>;
          p = p\<lparr>pod_labels := WriteRevisionHash (pod_labels p) revision\<rparr>;
          p = p\<lparr>pod_name := iu_name iu @ ''-'' @ iid\<rparr>;
          p = p\<lparr>pod_namespace := iu_namespace iu\<rparr>
      in p\<lparr>pod_labels := map_put (pod_labels p) InplaceuInstanceID iid\<rparr>)"

fun newVersionedPods :: "meta_lib \<Rightarrow> inplaceu \<Rightarrow> string \<Rightarrow> nat \<Rightarrow> string list \<Rightarrow> pod list" where
  "newVersionedPods M iu revision 0 availableIDs = []"
| "newVersionedPods M iu revision (Suc n) availableIDs =
     (case availableIDs of
        [] \<Rightarrow> []
      | iid # availableIDs' \<Rightarrow>
          new_versioned_pod M iu revision iid # newVersionedPods M iu revision n availableIDs')"

definition NewVersionedPods ::
  "meta_lib \<Rightarrow> inplaceu \<Rightarrow> string \<Rightarrow> int \<Rightarrow> string list \<Rightarrow> go_error + pod list" where
  "NewVersionedPods M updateCS updateRevision expectedCreations availableIDs =
     Inr (newVersionedPods M updateCS updateRevision (nat expectedCreations) availableIDs)"

text \<open>
  The less function handed to \<open>sort.Slice\<close>, on the elements of \<open>waitUpdateIndexes\<close>: indexes into
  \<open>pods\<close>, which the update control takes in range.
\<close>

definition GetPodsSortFunc :: "pod_lib \<Rightarrow> pod list \<Rightarrow> nat \<Rightarrow> nat \<Rightarrow> bool" where
  "GetPodsSortFunc L pods i j = active_pods_less L (pods ! i) (pods ! j)"

text \<open>The function of the same name in \<open>inplaceu_utils.go\<close>, on positions of \<open>waitUpdateIndexes\<close>.\<close>

definition utils_GetPodsSortFunc :: "pod_lib \<Rightarrow> pod list \<Rightarrow> nat list \<Rightarrow> nat \<Rightarrow> nat \<Rightarrow> bool" where
  "utils_GetPodsSortFunc L pods waitUpdateIndexes i j =
     active_pods_less L (pods ! (waitUpdateIndexes ! i)) (pods ! (waitUpdateIndexes ! j))"

lemma utils_GetPodsSortFunc_same:
  "utils_GetPodsSortFunc L pods ws i j = GetPodsSortFunc L pods (ws ! i) (ws ! j)"
  by (simp add: utils_GetPodsSortFunc_def GetPodsSortFunc_def)

section \<open>What is created\<close>

lemma newVersionedPods_map:
  "newVersionedPods M iu revision n ids = map (new_versioned_pod M iu revision) (take n ids)"
proof (induction n arbitrary: ids)
  case 0
  then show ?case by simp
next
  case (Suc n)
  then show ?case by (cases ids) simp_all
qed

lemma new_versioned_pod_fields:
  "pod_name (new_versioned_pod M iu revision iid) = iu_name iu @ ''-'' @ iid"
  "pod_namespace (new_versioned_pod M iu revision iid) = iu_namespace iu"
  "map_lookup (pod_labels (new_versioned_pod M iu revision iid)) InplaceuInstanceID = Some iid"
  "EqualToRevisionHash (pod_labels (new_versioned_pod M iu revision iid)) revision"
  "is_pod_update revision (new_versioned_pod M iu revision iid)"
  by (simp_all add: new_versioned_pod_def Let_def is_pod_update_def hash_adapter.equal_write_put)

lemma names_of_new_pods:
  "map pod_name (newVersionedPods M iu revision n ids) = map (\<lambda>iid. iu_name iu @ ''-'' @ iid) (take n ids)"
  by (simp add: newVersionedPods_map new_versioned_pod_fields)

section \<open>Properties\<close>



end
