(* ===== verification/Pod_Sorts.thy ===== *)
theory Pod_Sorts
  imports External Sample
begin

text \<open>
  \<open>internal/utils/pod_sorts.go\<close>: the order in which pods are given up on scale-in, and the ranks
  that spread deletions over nodes.  The order is shown to be the lexicographic order of a key, and
  so a legitimate argument of \<open>sort.Sort\<close>; the locale \<open>less_order\<close> is the contract of
  \<open>sort.Interface\<close>, with the facts about sorting that the scale and update controls use.
\<close>

section \<open>The contract of a Less method\<close>

locale less_order =
  fixes lt :: "'a \<Rightarrow> 'a \<Rightarrow> bool"
  assumes less_asym: "lt a b \<Longrightarrow> \<not> lt b a"
    and less_neg_trans: "\<not> lt a b \<Longrightarrow> \<not> lt b c \<Longrightarrow> \<not> lt a c"
begin

lemma less_irrefl: "\<not> lt a a"
  using less_asym by blast

lemma less_trans: "lt a b \<Longrightarrow> lt b c \<Longrightarrow> lt a c"
  using less_asym less_neg_trans by blast

lemma strict_weak_less: "strict_weak lt"
  unfolding strict_weak_def using less_asym less_neg_trans by blast

text \<open>The front of a sorted slice is no greater than the rest: what \<open>pods[:diff]\<close> is for.\<close>

lemma sorted_front_minimal:
  assumes "sort_contract srt" "x \<in> set (take n (srt lt xs))" "y \<in> set (drop n (srt lt xs))"
  shows "\<not> lt y x"
  using sorted_wrt_take_drop [OF sort_contract_sorted [OF assms(1) strict_weak_less] assms(2,3)]
  by simp

lemma last_maximal:
  assumes "sort_contract srt" "x \<in> set xs"
  shows "\<not> lt (last (srt lt xs)) x"
proof -
  let ?ys = "srt lt xs"
  have mem: "x \<in> set ?ys" using assms by (simp add: sort_contract_set)
  then have ne: "?ys \<noteq> []" by auto
  have "sorted_wrt (\<lambda>a b. \<not> lt b a) (butlast ?ys @ [last ?ys])"
    using sort_contract_sorted [OF assms(1) strict_weak_less] ne by simp
  moreover have "x \<in> set (butlast ?ys) \<or> x = last ?ys"
    using mem ne by (metis append_butlast_last_id in_set_conv_decomp rotate1.simps(2) set_ConsD set_rotate1)
  ultimately show ?thesis using less_irrefl by (auto simp: sorted_wrt_append)
qed

end

lemma less_order_key:
  fixes key :: "'a \<Rightarrow> 'k :: linorder"
  assumes "\<And>a b. lt a b \<longleftrightarrow> key a < key b"
  shows "less_order lt"
  by unfold_locales (auto simp: assms)

section \<open>Times as the order compares them\<close>

definition afterOrZero :: "time \<Rightarrow> time \<Rightarrow> bool" where
  "afterOrZero t1 t2 =
     (if is_zero_time t1 \<or> is_zero_time t2 then is_zero_time t1 else t1 > t2)"

text \<open>
  Where two times differ, \<open>afterOrZero\<close> puts the zero time first and then later times before
  earlier ones: a linear order on times, given to the type \<open>sort_time\<close>.
\<close>

datatype sort_time = SortTime (time_of: time)

instantiation sort_time :: linorder
begin

definition less_sort_time :: "sort_time \<Rightarrow> sort_time \<Rightarrow> bool" where
  "less_sort_time s t \<longleftrightarrow> s \<noteq> t \<and> afterOrZero (time_of s) (time_of t)"

definition less_eq_sort_time :: "sort_time \<Rightarrow> sort_time \<Rightarrow> bool" where
  "less_eq_sort_time s t \<longleftrightarrow> s = t \<or> afterOrZero (time_of s) (time_of t)"

instance
proof
  fix s t u :: sort_time
  show "(s < t) = (s \<le> t \<and> \<not> t \<le> s)"
    by (cases s; cases t)
      (auto simp: less_sort_time_def less_eq_sort_time_def afterOrZero_def is_zero_time_def
        split: if_splits)
  show "s \<le> s" by (simp add: less_eq_sort_time_def)
  show "s \<le> t \<Longrightarrow> t \<le> u \<Longrightarrow> s \<le> u"
    by (cases s; cases t; cases u)
      (auto simp: less_eq_sort_time_def afterOrZero_def is_zero_time_def split: if_splits)
  show "s \<le> t \<Longrightarrow> t \<le> s \<Longrightarrow> s = t"
    by (cases s; cases t)
      (auto simp: less_eq_sort_time_def afterOrZero_def is_zero_time_def split: if_splits)
  show "s \<le> t \<or> t \<le> s"
    by (cases s; cases t)
      (auto simp: less_eq_sort_time_def afterOrZero_def is_zero_time_def split: if_splits)
qed

end

section \<open>The order\<close>

definition podReadyTime :: "pod_lib \<Rightarrow> pod \<Rightarrow> time" where
  "podReadyTime L p =
     (if is_pod_ready L p
      then (case find (\<lambda>c. pc_type c = ''Ready'' \<and> pc_status c = ''True'') (pod_conditions p) of
              Some c \<Rightarrow> pc_last_transition c
            | None \<Rightarrow> 0)
      else 0)"

definition maxContainerRestarts :: "pod \<Rightarrow> int" where
  "maxContainerRestarts p =
     foldl (\<lambda>m c. max m (sint (cs_restart_count c))) 0 (pod_container_statuses p)"

definition podPhaseToOrdinal :: "pod_phase \<Rightarrow> int" where
  "podPhaseToOrdinal ph = (case ph of PodPending \<Rightarrow> 0 | PodUnknown \<Rightarrow> 1 | PodRunning \<Rightarrow> 2 | _ \<Rightarrow> 0)"

text \<open>
  \<open>ActivePodsWithRanks.Less\<close> on two pods: \<open>ranker\<close> and \<open>availableFunc\<close> are the fields of the
  same name, \<open>None\<close> when nil.  Ranks are small non-negative integers in the code's \<open>float64\<close>.
\<close>

definition ActivePodsWithRanks_Less ::
  "pod_lib \<Rightarrow> (pod \<Rightarrow> nat) option \<Rightarrow> (pod \<Rightarrow> bool) option \<Rightarrow> pod \<Rightarrow> pod \<Rightarrow> bool" where
  "ActivePodsWithRanks_Less L ranker availableFunc p q =
     (if pod_node p \<noteq> pod_node q \<and> (length (pod_node p) = 0 \<or> length (pod_node q) = 0)
      then length (pod_node p) = 0
      else if podPhaseToOrdinal (pod_phase p) \<noteq> podPhaseToOrdinal (pod_phase q)
      then podPhaseToOrdinal (pod_phase p) < podPhaseToOrdinal (pod_phase q)
      else if (case availableFunc of None \<Rightarrow> False | Some av \<Rightarrow> av p \<noteq> av q)
      then (case availableFunc of None \<Rightarrow> False | Some av \<Rightarrow> \<not> av p)
      else if is_pod_ready L p \<noteq> is_pod_ready L q
      then \<not> is_pod_ready L p
      else
        (let rankI = (case ranker of None \<Rightarrow> 0 | Some r \<Rightarrow> r p);
             rankJ = (case ranker of None \<Rightarrow> 0 | Some r \<Rightarrow> r q)
         in if rankI \<noteq> rankJ then rankI > rankJ
            else if is_pod_ready L p \<and> is_pod_ready L q \<and> podReadyTime L p \<noteq> podReadyTime L q
            then afterOrZero (podReadyTime L p) (podReadyTime L q)
            else if maxContainerRestarts p \<noteq> maxContainerRestarts q
            then maxContainerRestarts p > maxContainerRestarts q
            else if pod_creation p \<noteq> pod_creation q
            then afterOrZero (pod_creation p) (pod_creation q)
            else False))"

text \<open>
  The key the order compares, component by component: unassigned, phase, not available, not ready,
  higher rank, ready for a shorter time, more restarts, younger.
\<close>

definition deletion_key ::
  "pod_lib \<Rightarrow> (pod \<Rightarrow> nat) option \<Rightarrow> (pod \<Rightarrow> bool) option \<Rightarrow> pod \<Rightarrow>
     bool \<times> int \<times> bool \<times> bool \<times> int \<times> sort_time \<times> int \<times> sort_time" where
  "deletion_key L ranker availableFunc p =
     (pod_node p \<noteq> [],
      podPhaseToOrdinal (pod_phase p),
      (case availableFunc of None \<Rightarrow> True | Some av \<Rightarrow> av p),
      is_pod_ready L p,
      - int (case ranker of None \<Rightarrow> 0 | Some r \<Rightarrow> r p),
      SortTime (if is_pod_ready L p then podReadyTime L p else 0),
      - maxContainerRestarts p,
      SortTime (pod_creation p))"

lemma lex_step: "(a, b) < (a', b') \<longleftrightarrow> (if a \<noteq> a' then a < a' else b < b')"
  for a a' :: "'a :: linorder" and b b' :: "'b :: linorder"
  by (auto simp: less_prod_simp)

lemma lex_last: "b < b' \<longleftrightarrow> (if b \<noteq> b' then b < b' else False)" for b b' :: "'b :: linorder"
  by auto

lemma Less_iff_key:
  "ActivePodsWithRanks_Less L r af p q \<longleftrightarrow> deletion_key L r af p < deletion_key L r af q"
proof -
  have node: "(if pod_node p \<noteq> pod_node q \<and> (length (pod_node p) = 0 \<or> length (pod_node q) = 0)
      then length (pod_node p) = 0 else X) =
     (if (pod_node p \<noteq> []) \<noteq> (pod_node q \<noteq> []) then (pod_node p \<noteq> []) < (pod_node q \<noteq> []) else X)" for X
    by auto
  have avail: "(if (case af of None \<Rightarrow> False | Some av \<Rightarrow> av p \<noteq> av q)
      then (case af of None \<Rightarrow> False | Some av \<Rightarrow> \<not> av p) else X) =
     (if (case af of None \<Rightarrow> True | Some av \<Rightarrow> av p) \<noteq> (case af of None \<Rightarrow> True | Some av \<Rightarrow> av q)
      then (case af of None \<Rightarrow> True | Some av \<Rightarrow> av p) < (case af of None \<Rightarrow> True | Some av \<Rightarrow> av q)
      else X)" for X
    by (cases af) auto
  have ready: "(if is_pod_ready L p \<noteq> is_pod_ready L q then \<not> is_pod_ready L p else X) =
     (if is_pod_ready L p \<noteq> is_pod_ready L q then is_pod_ready L p < is_pod_ready L q else X)" for X
    by auto
  show ?thesis
    unfolding ActivePodsWithRanks_Less_def deletion_key_def lex_step node avail ready
    by (auto simp: less_sort_time_def Let_def split: option.splits)
qed

interpretation pod_order: less_order "ActivePodsWithRanks_Less L r af" for L r af
  by (rule less_order_key) (rule Less_iff_key)

section \<open>Ranks\<close>

fun set_rank :: "nat \<Rightarrow> (string \<rightharpoonup> nat) \<Rightarrow> nat \<times> pod \<Rightarrow> (string \<rightharpoonup> nat)" where
  "set_rank n ranks (i, p) = ranks(pod_uid p \<mapsto> n - i)"

definition set_ranks :: "(string \<rightharpoonup> nat) \<Rightarrow> pod list \<Rightarrow> (string \<rightharpoonup> nat)" where
  "set_ranks ranks ps = foldl (set_rank (length ps)) ranks (enumerate 0 ps)"

definition pods_on_node :: "pod list \<Rightarrow> string \<Rightarrow> pod list" where
  "pods_on_node pods node = filter (\<lambda>p. pod_node p = node) pods"

text \<open>
  \<open>NewSameNodeRanker\<close>.  Go iterates over the map of nodes in an arbitrary order; the groups are
  disjoint, so for pods with distinct UIDs the ranks do not depend on it.
\<close>

definition NewSameNodeRanker :: "pod_lib \<Rightarrow> pod list \<Rightarrow> (string \<rightharpoonup> nat)" where
  "NewSameNodeRanker L pods =
     foldl (\<lambda>ranks node.
        let podsOnSameNode = pods_on_node pods node
        in if length podsOnSameNode \<le> 1 then ranks
           else set_ranks ranks
                  (butlast (sort_pods L (ActivePodsWithRanks_Less L None None) podsOnSameNode)))
       Map.empty (remdups (filter (\<lambda>n. n \<noteq> []) (map pod_node pods)))"

definition GetRank :: "(string \<rightharpoonup> nat) \<Rightarrow> pod \<Rightarrow> nat" where
  "GetRank ranks p = (case ranks (pod_uid p) of None \<Rightarrow> 0 | Some r \<Rightarrow> r)"

definition validFirstDigit :: "string \<Rightarrow> bool" where
  "validFirstDigit str =
     (case str of [] \<Rightarrow> False
      | c # _ \<Rightarrow> c = CHR ''-'' \<or> (c = CHR ''0'' \<and> str = ''0'') \<or>
                (49 \<le> (of_char c :: nat) \<and> (of_char c :: nat) \<le> 57))"

lemma set_ranks_foldl:
  assumes "distinct (map pod_uid ps)"
  shows "(\<forall>i < length ps.
      foldl (set_rank n) ranks (enumerate k ps) (pod_uid (ps ! i))
        = Some (n - (k + i))) \<and>
    (\<forall>u. u \<notin> pod_uid ` set ps \<longrightarrow>
      foldl (set_rank n) ranks (enumerate k ps) u = ranks u)"
  using assms
proof (induction ps arbitrary: ranks k)
  case Nil
  then show ?case by simp
next
  case (Cons p ps)
  from Cons.prems have d: "distinct (map pod_uid ps)" and p: "pod_uid p \<notin> pod_uid ` set ps"
    by auto
  define r' where "r' = set_rank n ranks (k, p)"
  have r': "r' (pod_uid p) = Some (n - k)" "u \<noteq> pod_uid p \<Longrightarrow> r' u = ranks u" for u
    by (simp_all add: r'_def)
  have step: "foldl (set_rank n) ranks (enumerate k (p # ps))
      = foldl (set_rank n) r' (enumerate (Suc k) ps)"
    by (simp add: r'_def del: set_rank.simps)
  note IH = Cons.IH [OF d, of r' "Suc k"]
  have "foldl (set_rank n) r' (enumerate (Suc k) ps) (pod_uid ((p # ps) ! i)) = Some (n - (k + i))"
    if "i < length (p # ps)" for i
    using IH p r' that by (cases i) auto
  with IH r' show ?case unfolding step by auto
qed

lemma set_ranks_nth:
  "distinct (map pod_uid ps) \<Longrightarrow> i < length ps \<Longrightarrow>
     set_ranks ranks ps (pod_uid (ps ! i)) = Some (length ps - i)"
  using set_ranks_foldl [of ps "length ps" ranks 0] by (simp add: set_ranks_def)

lemma set_ranks_other:
  "distinct (map pod_uid ps) \<Longrightarrow> u \<notin> pod_uid ` set ps \<Longrightarrow> set_ranks ranks ps u = ranks u"
  using set_ranks_foldl [of ps "length ps" ranks 0] by (simp add: set_ranks_def)

text \<open>One turn of the loop over the nodes, and the whole loop.\<close>

definition node_ranks :: "pod_lib \<Rightarrow> pod list \<Rightarrow> (string \<rightharpoonup> nat) \<Rightarrow> string \<Rightarrow> (string \<rightharpoonup> nat)" where
  "node_ranks L pods ranks node =
     (let podsOnSameNode = pods_on_node pods node
      in if length podsOnSameNode \<le> 1 then ranks
         else set_ranks ranks
                (butlast (sort_pods L (ActivePodsWithRanks_Less L None None) podsOnSameNode)))"

lemma NewSameNodeRanker_fold:
  "NewSameNodeRanker L pods =
     foldl (node_ranks L pods) Map.empty (remdups (filter (\<lambda>n. n \<noteq> []) (map pod_node pods)))"
  by (simp add: NewSameNodeRanker_def node_ranks_def [abs_def])

lemma distinct_map_mset: "mset xs = mset ys \<Longrightarrow> distinct (map f xs) = distinct (map f ys)"
  by (metis mset_eq_imp_distinct_iff mset_map)

lemma node_sorted:
  assumes "sort_contract (sort_pods L)" "distinct (map pod_uid pods)"
    and "s = sort_pods L (ActivePodsWithRanks_Less L None None) (pods_on_node pods node)"
  shows "distinct (map pod_uid s)" and "set s = set (pods_on_node pods node)"
    and "length s = length (pods_on_node pods node)"
proof -
  have m: "mset s = mset (pods_on_node pods node)"
    using assms(1,3) by (simp add: sort_contract_mset)
  have "distinct (map pod_uid (pods_on_node pods node))"
    unfolding pods_on_node_def by (rule distinct_map_filter [OF assms(2)])
  with m show "distinct (map pod_uid s)" by (simp add: distinct_map_mset [OF m])
  show "set s = set (pods_on_node pods node)" using m by (rule mset_eq_setD)
  show "length s = length (pods_on_node pods node)" using m by (rule mset_eq_length)
qed

lemma node_ranks_other:
  assumes "sort_contract (sort_pods L)" "distinct (map pod_uid pods)"
    and "p \<in> set pods" "pod_node p \<noteq> node"
  shows "node_ranks L pods ranks node (pod_uid p) = ranks (pod_uid p)"
proof -
  let ?s = "sort_pods L (ActivePodsWithRanks_Less L None None) (pods_on_node pods node)"
  note s = node_sorted [OF assms(1,2), of ?s node, OF refl]
  have "pod_uid p \<notin> pod_uid ` set (butlast ?s)"
  proof
    assume "pod_uid p \<in> pod_uid ` set (butlast ?s)"
    then obtain q where q: "q \<in> set ?s" "pod_uid q = pod_uid p" by (auto dest: in_set_butlastD)
    then have "q \<in> set pods" "pod_node q = node" using s(2) by (auto simp: pods_on_node_def)
    with q(2) assms(2,3,4) show False by (metis distinct_map inj_on_eq_iff)
  qed
  moreover have "distinct (map pod_uid (butlast ?s))"
    using s(1) by (simp add: map_butlast distinct_butlast)
  ultimately show ?thesis by (simp add: node_ranks_def Let_def set_ranks_other)
qed

lemma node_ranks_fold_other:
  assumes "sort_contract (sort_pods L)" "distinct (map pod_uid pods)"
    and "p \<in> set pods" "pod_node p \<notin> set nodes"
  shows "foldl (node_ranks L pods) ranks nodes (pod_uid p) = ranks (pod_uid p)"
  using assms(4)
proof (induction nodes arbitrary: ranks)
  case Nil
  then show ?case by simp
next
  case (Cons n ns)
  then show ?case using node_ranks_other [OF assms(1,2,3), of n ranks] by simp
qed

lemma node_ranks_own:
  assumes "sort_contract (sort_pods L)" "distinct (map pod_uid pods)"
    and "s = sort_pods L (ActivePodsWithRanks_Less L None None) (pods_on_node pods node)"
    and "i < length s" "ranks (pod_uid (s ! i)) = None"
  shows "GetRank (node_ranks L pods ranks node) (s ! i) = length s - 1 - i"
proof (cases "length s \<le> 1")
  case True
  with assms show ?thesis
    using node_sorted(3) [OF assms(1-3)] by (simp add: node_ranks_def GetRank_def)
next
  case False
  note s = node_sorted [OF assms(1-3)]
  have nr: "node_ranks L pods ranks node = set_ranks ranks (butlast s)"
    using False s(3) assms(3) by (simp add: node_ranks_def)
  have d: "distinct (map pod_uid (butlast s))"
    using s(1) by (simp add: map_butlast distinct_butlast)
  show ?thesis
  proof (cases "i < length (butlast s)")
    case True
    then have "butlast s ! i = s ! i" by (rule nth_butlast)
    with set_ranks_nth [OF d True, of ranks] True show ?thesis
      by (simp add: nr GetRank_def)
  next
    case False
    with assms(4) have i: "i = length s - 1" by simp
    have "s \<noteq> []" using assms(4) by auto
    then have split: "s = butlast s @ [s ! i]" 
      by (metis append_butlast_last_id i last_conv_nth)
    have "distinct (map pod_uid (butlast s @ [s ! i]))" using s(1) split by simp
    then have "pod_uid (s ! i) \<notin> pod_uid ` set (butlast s)" by simp
    with d i assms(5) show ?thesis by (simp add: nr GetRank_def set_ranks_other)
  qed
qed

section \<open>Properties\<close>

text \<open>
  C38: \<open>ActivePodsWithRanks.Less\<close>, with any ranker and any availability function, is the
  lexicographic order of a key (unassigned first, then pending before unknown before running, not
  available, not ready, higher rank, ready most recently, most restarts, youngest).  It is therefore
  a strict weak order, which is what \<open>sort.Sort\<close> requires of it: the chain of early returns has no
  cycle.
\<close>

theorem active_pods_less_is_lexicographic:
  "(ActivePodsWithRanks_Less L ranker af p q \<longleftrightarrow>
      deletion_key L ranker af p < deletion_key L ranker af q) \<and>
   strict_weak (ActivePodsWithRanks_Less L ranker af)"
  using Less_iff_key pod_order.strict_weak_less by blast

text \<open>
  The ranks of \<open>NewSameNodeRanker\<close> count, for every pod that is assigned to a node, how many
  pods of the same node the order without ranks puts after it: sorting by descending rank takes
  pods from the crowded nodes first, and the last pod of every node has rank 0, as has every pod
  alone on its node.
\<close>

theorem same_node_ranks_count_followers:
  assumes "sort_contract (sort_pods L)" and "distinct (map pod_uid pods)" and "node \<noteq> []"
    and "s = sort_pods L (ActivePodsWithRanks_Less L None None) (pods_on_node pods node)"
    and "i < length s"
  shows "GetRank (NewSameNodeRanker L pods) (s ! i) = length s - 1 - i"
proof -
  let ?nodes = "remdups (filter (\<lambda>n. n \<noteq> []) (map pod_node pods))"
  have "s ! i \<in> set (pods_on_node pods node)"
    using node_sorted(2) [OF assms(1,2,4)] assms(5) by (metis nth_mem)
  then have p: "s ! i \<in> set pods" "pod_node (s ! i) = node" by (auto simp: pods_on_node_def)
  with assms(3) have "node \<in> set ?nodes" by auto
  then obtain as bs where nodes: "?nodes = as @ node # bs" by (meson split_list)
  have "distinct ?nodes" by simp
  with nodes have fresh: "node \<notin> set as" "node \<notin> set bs" by auto
  let ?r = "foldl (node_ranks L pods) Map.empty as"
  have "?r (pod_uid (s ! i)) = None"
    using node_ranks_fold_other [OF assms(1,2) p(1), of as] fresh p(2) by simp
  then have own: "GetRank (node_ranks L pods ?r node) (s ! i) = length s - 1 - i"
    using node_ranks_own [OF assms(1,2,4,5)] by blast
  have "NewSameNodeRanker L pods (pod_uid (s ! i)) = node_ranks L pods ?r node (pod_uid (s ! i))"
    using node_ranks_fold_other [OF assms(1,2) p(1), of bs] fresh p(2)
    by (simp add: NewSameNodeRanker_fold nodes)
  with own show ?thesis by (simp add: GetRank_def)
qed

theorem same_node_ranks_count_followers_witness:
  "let s = sort_pods sample_pod_lib (ActivePodsWithRanks_Less sample_pod_lib None None)
         [sample_pod ''a'' PodRunning None, sample_pod ''b'' PodPending None]
   in GetRank (NewSameNodeRanker sample_pod_lib
        [sample_pod ''a'' PodRunning None, sample_pod ''b'' PodPending None]) (s ! 0) = 1"
proof -
  let ?pods = "[sample_pod ''a'' PodRunning None, sample_pod ''b'' PodPending None]"
  let ?s = "sort_pods sample_pod_lib (ActivePodsWithRanks_Less sample_pod_lib None None)
    (pods_on_node ?pods ''n1'')"
  have on: "pods_on_node ?pods ''n1'' = ?pods" by (simp add: pods_on_node_def sample_pod_def)
  have len: "length ?s = 2" using sort_contract_length [OF sample_pod_lib_sorts(1)] on by simp
  have "distinct (map pod_uid ?pods)" by (simp add: sample_pod_def)
  then have "GetRank (NewSameNodeRanker sample_pod_lib ?pods) (?s ! 0) = length ?s - 1 - 0"
    by (rule same_node_ranks_count_followers [OF sample_pod_lib_sorts(1) _ _ refl]) (simp_all add: len)
  then show ?thesis unfolding len by (simp add: on)
qed

end
