(* ===== verification/Sample_Cluster.thy ===== *)
theory Sample_Cluster
  imports Cluster Sample Revision_Hash
begin

text \<open>
  A concrete API server for the witnesses: the world is a counter of the calls made, every call
  succeeds, the clock and the random source are read off the counter.
\<close>

definition sample_revision :: "string \<Rightarrow> int64 \<Rightarrow> string \<Rightarrow> revision" where
  "sample_revision name n data =
     \<lparr>rev_name = name, rev_namespace = ''ns'', rev_uid = name, rev_rv = ''3'',
      rev_owners = [sample_owner], rev_labels = None, rev_annotations = None,
      rev_data = data, rev_revision = n\<rparr>"

definition sample_api :: "nat api" where
  "sample_api =
     \<lparr>clock_now = (\<lambda>w. (1000 + int w, Suc w)),
      random_string = (\<lambda>n w. (replicate (n - 1) (CHR ''x'') @ [char_of (97 + w mod 26)], Suc w)),
      get_pod = (\<lambda>ns n w. (Inr ((sample_pod n PodRunning None)\<lparr>pod_namespace := ns\<rparr>), Suc w)),
      create_pod = (\<lambda>p w. (None, Suc w)),
      update_pod = (\<lambda>p w. (Inr (p\<lparr>pod_rv := ''8''\<rparr>), Suc w)),
      delete_pod = (\<lambda>p w. (None, Suc w)),
      patch_pod = (\<lambda>p v w.
        (Inr (p\<lparr>pod_rv := ''8'', pod_labels := map_put (pod_labels p) SpecifiedDeleteKey v\<rparr>), Suc w)),
      list_owned_pods = (\<lambda>ns uid w. (Inr [sample_pod ''web-xxxxa'' PodRunning None], Suc w)),
      get_iu = (\<lambda>ns n w. (Inr (sample_iu (Some 1) (sample_rolling 1 1)), Suc w)),
      list_iu = (\<lambda>ns w. (Inr [sample_iu (Some 1) (sample_rolling 1 1)], Suc w)),
      update_iu_status = (\<lambda>iu w. (None, Suc w)),
      get_revision = (\<lambda>ns n w. (Inr (sample_revision n 1 ''d1''), Suc w)),
      list_revisions = (\<lambda>ns sel w. (Inr [sample_revision ''web-r1'' 1 ''d1''], Suc w)),
      create_revision = (\<lambda>r w. (Inr r, Suc w)),
      update_revision = (\<lambda>r w. (Inr r, Suc w)),
      delete_revision = (\<lambda>r w. (None, Suc w))\<rparr>"

definition sample_sys :: "nat sys" where
  "sample_sys = \<lparr>world = 0, scale_exps = NewScaleExpectations, rv_exps = NewResourceVersionExpectation,
     durations = Map.empty, events = []\<rparr>"


text \<open>Pods of the update revision \<open>web-r2\<close>, as they are and marked for deletion.\<close>

definition updated_pod :: "string \<Rightarrow> pod_phase \<Rightarrow> pod" where
  "updated_pod name phase = sample_pod name phase (WriteRevisionHash None ''web-r2'')"

definition marked_pod :: "string \<Rightarrow> pod_phase \<Rightarrow> pod" where
  "marked_pod name phase = sample_pod name phase
     (map_put (WriteRevisionHash None ''web-r2'') SpecifiedDeleteKey ''true'')"

end
