(* ===== verification/Scale_Sync.thy ===== *)
theory Scale_Sync
  imports Scale_Diff Inplaceu_Core Pod_Sorts Sample_Cluster
begin

text \<open>
  \<open>internal/sync/inplaceu_scale.go\<close>: creating, specified deletion and scale-in of pods, with the
  scale expectations that keep the controller from acting again before it has seen the result.
\<close>

section \<open>Instance ids\<close>

text \<open>The loop draws until the id is not in use; it may go on for ever.\<close>

partial_function (option) getOrGenInstanceID ::
  "('w \<Rightarrow> string \<times> 'w) \<Rightarrow> string fset \<Rightarrow> 'w \<Rightarrow> (string \<times> 'w) option" where
  "getOrGenInstanceID rnd existingIDs w =
     (if fst (rnd w) |\<notin>| existingIDs then Some (rnd w)
      else getOrGenInstanceID rnd existingIDs (snd (rnd w)))"

declare getOrGenInstanceID.simps [code]

definition existing_ids :: "pod list \<Rightarrow> string fset" where
  "existing_ids pods =
     foldl (\<lambda>ids p. let iid = map_get (pod_labels p) InplaceuInstanceID
                   in if length iid > 0 then finsert iid ids else ids) {||} pods"

fun gen_ids :: "('w \<Rightarrow> string \<times> 'w) \<Rightarrow> string fset \<Rightarrow> nat \<Rightarrow> string fset \<Rightarrow> 'w \<Rightarrow>
    (string fset \<times> 'w) option" where
  "gen_ids rnd existingIDs 0 retIDs w = Some (retIDs, w)"
| "gen_ids rnd existingIDs (Suc n) retIDs w =
     (case getOrGenInstanceID rnd existingIDs w of
        None \<Rightarrow> None
      | Some (iid, w') \<Rightarrow> gen_ids rnd existingIDs n (finsert iid retIDs) w')"

definition LengthOfInstanceID :: nat where
  "LengthOfInstanceID = 5"

definition initialBatchSize :: nat where
  "initialBatchSize = 1"

definition getOrGenAvailableIDs ::
  "'w api \<Rightarrow> int \<Rightarrow> pod list \<Rightarrow> 'w \<Rightarrow> (string fset \<times> 'w) option" where
  "getOrGenAvailableIDs A num pods w =
     gen_ids (random_string A LengthOfInstanceID) (existing_ids pods) (nat num) {||} w"

section \<open>Creating pods\<close>

definition createOnePod :: "'w api \<Rightarrow> inplaceu \<Rightarrow> pod \<Rightarrow> 'w sys \<Rightarrow> go_error option \<times> 'w sys" where
  "createOnePod A iu p s =
     (case on_world (create_pod A p) s of
        (Some e, s) \<Rightarrow> (Some e, record_event EventWarning ''FailedCreate'' (pod_name p) s)
      | (None, s) \<Rightarrow> (None, record_event EventNormal ''SuccessfulCreate'' (pod_name p) s))"

text \<open>
  What the closure given to \<open>DoItSlowly\<close> shares between its calls: the channel of pods, the count
  of successes, the names of the pods created, and the state of the process.  The closure is called
  at most once per pod, so the channel is never read when it is empty.
\<close>

record 'w creation =
  podsCreationChan :: "pod list"
  created :: nat
  successPodNames :: "string fset"
  creation_sys :: "'w sys"

definition create_next :: "'w api \<Rightarrow> inplaceu \<Rightarrow> 'w creation attempt" where
  "create_next A iu st =
     (case podsCreationChan st of
        [] \<Rightarrow> (None, st)
      | p # ps \<Rightarrow>
          (case createOnePod A iu p (creation_sys st) of
             (Some e, s) \<Rightarrow> (Some e, st\<lparr>podsCreationChan := ps, creation_sys := s\<rparr>)
           | (None, s) \<Rightarrow>
               (None, st\<lparr>podsCreationChan := ps, created := created st + 1,
                        successPodNames := finsert (pod_name p) (successPodNames st),
                        creation_sys := s\<rparr>)))"

definition createPods ::
  "meta_lib \<Rightarrow> 'w api \<Rightarrow> int \<Rightarrow> inplaceu \<Rightarrow> string \<Rightarrow> string list \<Rightarrow> 'w sys \<Rightarrow>
     (bool \<times> go_error option) \<times> 'w sys" where
  "createPods M A expectedCreations updateCS updateRevision availableIDs s =
     (case NewVersionedPods M updateCS updateRevision expectedCreations availableIDs of
        Inl e \<Rightarrow> ((False, Some e), s)
      | Inr newPods \<Rightarrow>
          (let key = GetControllerKey M updateCS;
               s = foldl (\<lambda>s p. expect_scale key Create (pod_name p) s) s newPods
           in case DoItSlowly (length newPods) initialBatchSize (create_next A updateCS)
                     \<lparr>podsCreationChan = newPods, created = 0, successPodNames = {||},
                      creation_sys = s\<rparr> of
                ((_, err), st) \<Rightarrow>
                  (let s = foldl (\<lambda>s p. if pod_name p |\<notin>| successPodNames st
                                        then observe_scale key Create (pod_name p) s else s)
                             (creation_sys st) newPods
                   in ((created st \<noteq> 0, err), s))))"

section \<open>Deleting pods\<close>

fun delete_each :: "'w api \<Rightarrow> string \<Rightarrow> pod list \<Rightarrow> bool \<Rightarrow> 'w sys \<Rightarrow>
    (bool \<times> go_error option) \<times> 'w sys" where
  "delete_each A key [] modified s = ((modified, None), s)"
| "delete_each A key (p # ps) modified s =
     (let s = expect_scale key Delete (pod_name p) s
      in case on_world (delete_pod A p) s of
           (Some e, s) \<Rightarrow>
             ((modified, Some e),
              record_event EventWarning ''FailedDelete'' (pod_name p)
                (observe_scale key Delete (pod_name p) s))
         | (None, s) \<Rightarrow>
             delete_each A key ps True
               (record_event EventNormal ''SuccessfulDelete'' (pod_name p) s))"

definition deletePods ::
  "meta_lib \<Rightarrow> 'w api \<Rightarrow> inplaceu \<Rightarrow> pod list \<Rightarrow> 'w sys \<Rightarrow> (bool \<times> go_error option) \<times> 'w sys" where
  "deletePods M A iu podsToDelete s = delete_each A (GetControllerKey M iu) podsToDelete False s"

section \<open>Choosing pods\<close>

definition getPlannedDeletedPods :: "pod list \<Rightarrow> pod list \<times> nat" where
  "getPlannedDeletedPods pods =
     (let podsSpecifiedToDelete = filter IsSpecifiedDelete pods
      in (podsSpecifiedToDelete, fcard (GetPodNames podsSpecifiedToDelete)))"

definition choosePodsToDelete :: "pod_lib \<Rightarrow> int \<Rightarrow> pod list \<Rightarrow> pod list" where
  "choosePodsToDelete L totalDiff updatedPods =
     (let diff = totalDiff; pods = updatedPods
      in if diff < int (length pods)
         then take (nat diff)
                (sort_pods L
                   (ActivePodsWithRanks_Less L (Some (GetRank (NewSameNodeRanker L pods)))
                      (Some IsRunning)) pods)
         else if diff > int (length pods) then pods
         else take (nat diff) pods)"

text \<open>
  The two loops that pick the pods that may go: a pod that does not count as ready always, one that
  does while the limit lasts.  The test is availability for specified deletion and the running
  phase for scale-in.
\<close>

fun pick_within_limit :: "(pod \<Rightarrow> bool) \<Rightarrow> int \<Rightarrow> pod list \<Rightarrow> pod list \<times> int" where
  "pick_within_limit ready limit [] = ([], limit)"
| "pick_within_limit ready limit (p # ps) =
     (if \<not> ready p
      then (case pick_within_limit ready limit ps of (picked, l) \<Rightarrow> (p # picked, l))
      else if limit > 0
      then (case pick_within_limit ready (limit - 1) ps of (picked, l) \<Rightarrow> (p # picked, l))
      else pick_within_limit ready limit ps)"

section \<open>Scale\<close>

text \<open>
  The clock is read once for the availability tests of a call.  \<open>None\<close> in the second component of
  the result is the nil error.
\<close>

definition scale_in_steps ::
  "pod_lib \<Rightarrow> meta_lib \<Rightarrow> 'w api \<Rightarrow> inplaceu \<Rightarrow> expectation_diffs \<Rightarrow> pod list \<Rightarrow> pod list \<Rightarrow> 'w sys \<Rightarrow>
     (bool \<times> go_error option) \<times> 'w sys" where
  "scale_in_steps L M A updateCS diffRes podsSpecifiedToDelete updatedPods s =
     (let (first, limit) =
        (if length podsSpecifiedToDelete > 0
         then case on_world (clock_now A) s of
                (now, s) \<Rightarrow>
                  (case pick_within_limit
                          (IsPodAvailable L now (sp_min_ready_seconds (iu_spec updateCS)))
                          (deleteReadyLimit diffRes) podsSpecifiedToDelete of
                     (podsCanDelete, limit) \<Rightarrow> (deletePods M A updateCS podsCanDelete s, limit))
         else (((False, None), s), deleteReadyLimit diffRes));
          ((modified, err), s) = first
      in if err \<noteq> None \<or> modified then ((modified, err), s)
         else if scaleDownNum diffRes > 0
         then let podsPreparingToDelete = choosePodsToDelete L (scaleDownNum diffRes) updatedPods;
                  podsToDelete = fst (pick_within_limit IsRunning limit podsPreparingToDelete)
              in deletePods M A updateCS podsToDelete s
         else ((False, None), s))"

definition Scale ::
  "pod_lib \<Rightarrow> meta_lib \<Rightarrow> 'w api \<Rightarrow> inplaceu \<Rightarrow> inplaceu \<Rightarrow> string \<Rightarrow> string \<Rightarrow> pod list \<Rightarrow> 'w sys \<Rightarrow>
     ((bool \<times> go_error option) \<times> 'w sys) may_panic" where
  "Scale L M A currentCS updateCS currentRevision updateRevision pods s =
     (if sp_replicas (iu_spec updateCS) = None
      then Inr ((False, Some (Errorf ''spec.Replicas is nil'')), s)
      else
        let (podsSpecifiedToDelete, _) = getPlannedDeletedPods pods
        in bindP (calculateDiffsWithExpectation L updateCS pods currentRevision updateRevision) (\<lambda>diffRes.
           let (updatedPods, _) = GroupUpdateAndNotUpdatePods pods updateRevision
           in if scaleUpNum diffRes > 0
              then let expectedCreations = scaleUpNum diffRes
                   in bindP (returns (getOrGenAvailableIDs A expectedCreations pods (world s))) (\<lambda>(ids, w).
                      Inr (createPods M A expectedCreations updateCS updateRevision
                             (sorted_list_of_fset ids) (s\<lparr>world := w\<rparr>)))
              else Inr (scale_in_steps L M A updateCS diffRes podsSpecifiedToDelete updatedPods s)))"

section \<open>Lemmas on the parts\<close>

subsection \<open>Instance ids\<close>

lemma getOrGenInstanceID_fresh:
  assumes "getOrGenInstanceID rnd ex w = Some r"
  shows "fst r |\<notin>| ex"
  by (rule getOrGenInstanceID.raw_induct [where P = "\<lambda>rnd ex w r. fst r |\<notin>| ex", OF _ assms])
    (auto split: if_splits)


text \<open>The draws of the loop, and the one it stops at.\<close>

definition draw :: "('w \<Rightarrow> string \<times> 'w) \<Rightarrow> nat \<Rightarrow> 'w \<Rightarrow> string" where
  "draw rnd n w = fst (rnd (((snd \<circ> rnd) ^^ n) w))"

lemma getOrGenInstanceID_returns:
  "draw rnd n w |\<notin>| ex \<Longrightarrow> \<exists>r. getOrGenInstanceID rnd ex w = Some r"
proof (induction n arbitrary: w)
  case 0
  then show ?case by (simp add: draw_def getOrGenInstanceID.simps)
next
  case (Suc n)
  show ?case
  proof (cases "fst (rnd w) |\<notin>| ex")
    case True
    then show ?thesis by (simp add: getOrGenInstanceID.simps)
  next
    case False
    have "draw rnd n (snd (rnd w)) = draw rnd (Suc n) w"
      by (simp add: draw_def funpow_swap1)
    with Suc.IH [of "snd (rnd w)"] Suc.prems False show ?thesis
      by (simp add: getOrGenInstanceID.simps)
  qed
qed

lemma gen_ids_returns:
  assumes "\<And>w. \<exists>n. draw rnd n w |\<notin>| ex"
  shows "\<exists>r. gen_ids rnd ex n ret w = Some r"
proof (induction n arbitrary: ret w)
  case 0
  then show ?case by simp
next
  case (Suc n)
  from assms [of w] obtain k where k: "draw rnd k w |\<notin>| ex" ..
  from getOrGenInstanceID_returns [OF k] obtain r where "getOrGenInstanceID rnd ex w = Some r" ..
  moreover obtain iid w' where "r = (iid, w')" by (cases r)
  moreover from Suc.IH [of "finsert iid ret" w']
  obtain r' where "gen_ids rnd ex n (finsert iid ret) w' = Some r'" ..
  ultimately show ?case by simp
qed

lemma existing_ids_mem:
  "iid |\<in>| existing_ids pods \<longleftrightarrow>
     iid \<noteq> [] \<and> (\<exists>p \<in> set pods. map_get (pod_labels p) InplaceuInstanceID = iid)"
proof -
  have "iid |\<in>| foldl (\<lambda>ids p. let iid = map_get (pod_labels p) InplaceuInstanceID
                   in if length iid > 0 then finsert iid ids else ids) base pods \<longleftrightarrow>
      iid |\<in>| base \<or> iid \<noteq> [] \<and> (\<exists>p \<in> set pods. map_get (pod_labels p) InplaceuInstanceID = iid)" for base
    by (induction pods arbitrary: base) (auto simp: Let_def)
  then show ?thesis by (simp add: existing_ids_def)
qed

lemma gen_ids_fresh:
  assumes "gen_ids rnd ex n ret w = Some (ids, w')" and "ret |\<inter>| ex = {||}"
  shows "ids |\<inter>| ex = {||} \<and> fcard ids \<le> fcard ret + n"
  using assms
proof (induction n arbitrary: ret w)
  case 0
  then show ?case by simp
next
  case (Suc n)
  from Suc.prems(1) obtain iid w1 where g: "getOrGenInstanceID rnd ex w = Some (iid, w1)"
    and rest: "gen_ids rnd ex n (finsert iid ret) w1 = Some (ids, w')"
    by (auto split: option.splits)
  have "iid |\<notin>| ex" using getOrGenInstanceID_fresh [OF g] by simp
  with Suc.prems(2) have "finsert iid ret |\<inter>| ex = {||}" by simp
  from Suc.IH [OF rest this] have "ids |\<inter>| ex = {||} \<and> fcard ids \<le> fcard (finsert iid ret) + n" .
  moreover have "fcard (finsert iid ret) \<le> Suc (fcard ret)" by (simp add: fcard_finsert_if)
  ultimately show ?case by linarith
qed

subsection \<open>Picking\<close>

lemma subset_add_mset_self: "M \<subseteq># add_mset x M"
  by (metis add_mset_add_single mset_subset_eq_add_left)

lemma pick_within_limit_counts:
  "count_where ready (fst (pick_within_limit ready limit ps)) = min (max 0 limit) (count_where ready ps) \<and>
   count_where (\<lambda>p. \<not> ready p) (fst (pick_within_limit ready limit ps)) = count_where (\<lambda>p. \<not> ready p) ps \<and>
   snd (pick_within_limit ready limit ps) = limit - count_where ready (fst (pick_within_limit ready limit ps)) \<and>
   mset (fst (pick_within_limit ready limit ps)) \<subseteq># mset ps"
proof (induction ready limit ps rule: pick_within_limit.induct)
  case (1 ready limit)
  then show ?case by simp
next
  case (2 ready limit p ps)
  show ?case
  proof (cases "ready p")
    case True
    show ?thesis
    proof (cases "limit > 0")
      case pos: True
      with True 2 show ?thesis
        using count_where_bounds(1) [of ready ps] by (auto simp: case_prod_beta min_def max_def)
    next
      case False
      with True 2 show ?thesis
        using count_where_bounds(1) [of ready ps]
        by (auto simp: max_def intro: subset_mset.order_trans [OF _ subset_add_mset_self])
    qed
  next
    case False
    with 2 show ?thesis by (simp add: case_prod_beta)
  qed
qed

lemma count_where_mset_mono: "mset xs \<subseteq># mset ys \<Longrightarrow> count_where P xs \<le> count_where P ys"
proof -
  assume "mset xs \<subseteq># mset ys"
  then have "filter_mset P (mset xs) \<subseteq># filter_mset P (mset ys)" by (rule multiset_filter_mono)
  from size_mset_mono [OF this] show ?thesis
    by (simp add: count_where_def flip: mset_filter)
qed

lemma choosePodsToDelete_mset:
  assumes "sort_contract (sort_pods L)"
  shows "mset (choosePodsToDelete L diff pods) \<subseteq># mset pods"
    and "0 \<le> diff \<Longrightarrow> int (length (choosePodsToDelete L diff pods)) = min diff (int (length pods))"
proof -
  have take_sub: "mset (take n xs) \<subseteq># mset xs" for n and xs :: "pod list"
    using mset_take_drop [of n xs] by (metis mset_subset_eq_add_left)
  show "mset (choosePodsToDelete L diff pods) \<subseteq># mset pods"
    using take_sub sort_contract_mset [OF assms] by (auto simp: choosePodsToDelete_def Let_def) metis
  show "int (length (choosePodsToDelete L diff pods)) = min diff (int (length pods))" if "0 \<le> diff"
    using that sort_contract_length [OF assms] by (auto simp: choosePodsToDelete_def Let_def)
qed

subsection \<open>Expectations around the calls\<close>

lemma scale_exps_expect_fold:
  "scale_exps (foldl (\<lambda>s p. expect_scale key a (pod_name p) s) s ps) =
     scale_store.expect_all (scale_exps s) key a (map pod_name ps)"
  unfolding scale_store.expect_all_def by (induction ps arbitrary: s) simp_all

lemma expect_fold_frame [sys_frame]:
  "world (foldl (\<lambda>s p. expect_scale key a (pod_name p) s) s ps) = world s"
  "events (foldl (\<lambda>s p. expect_scale key a (pod_name p) s) s ps) = events s"
  "rv_exps (foldl (\<lambda>s p. expect_scale key a (pod_name p) s) s ps) = rv_exps s"
  "durations (foldl (\<lambda>s p. expect_scale key a (pod_name p) s) s ps) = durations s"
  by (induction ps arbitrary: s) simp_all

lemma rollback_fold:
  "scale_exps (foldl (\<lambda>s p. if pod_name p |\<notin>| ok then observe_scale key a (pod_name p) s else s) s ps) =
     scale_store.observe_all (scale_exps s) key a (filter (\<lambda>n. n |\<notin>| ok) (map pod_name ps))"
  unfolding scale_store.observe_all_def by (induction ps arbitrary: s) simp_all

lemma rollback_fold_frame [sys_frame]:
  "world (foldl (\<lambda>s p. if pod_name p |\<notin>| ok then observe_scale key a (pod_name p) s else s) s ps) = world s"
  "events (foldl (\<lambda>s p. if pod_name p |\<notin>| ok then observe_scale key a (pod_name p) s else s) s ps) = events s"
  "rv_exps (foldl (\<lambda>s p. if pod_name p |\<notin>| ok then observe_scale key a (pod_name p) s else s) s ps) = rv_exps s"
  "durations (foldl (\<lambda>s p. if pod_name p |\<notin>| ok then observe_scale key a (pod_name p) s else s) s ps) = durations s"
  by (induction ps arbitrary: s) simp_all

subsection \<open>What createPods does\<close>

text \<open>The state of the creation loop after any number of calls, relative to where it started.\<close>

definition creation_inv :: "'w sys \<Rightarrow> pod list \<Rightarrow> 'w creation \<Rightarrow> bool" where
  "creation_inv s0 newPods st \<longleftrightarrow>
     (\<exists>evs. events (creation_sys st) = events s0 @ evs \<and>
        event_objects ''SuccessfulDelete'' evs = [] \<and>
        successPodNames st = fset_of_list (event_objects ''SuccessfulCreate'' evs) \<and>
        created st = length (event_objects ''SuccessfulCreate'' evs)) \<and>
     created st + length (podsCreationChan st) \<le> length newPods \<and>
     set (podsCreationChan st) \<subseteq> set newPods \<and>
     fset (successPodNames st) \<subseteq> pod_name ` set newPods \<and>
     scale_exps (creation_sys st) = scale_exps s0 \<and>
     rv_exps (creation_sys st) = rv_exps s0 \<and> durations (creation_sys st) = durations s0"

lemma createOnePod_cases:
  obtains (failed) e s' where "createOnePod A iu p s = (Some e, s')"
      "events s' = events s @ [event_of EventWarning ''FailedCreate'' (pod_name p)]"
      "scale_exps s' = scale_exps s" "rv_exps s' = rv_exps s" "durations s' = durations s"
  | (made) s' where "createOnePod A iu p s = (None, s')"
      "events s' = events s @ [event_of EventNormal ''SuccessfulCreate'' (pod_name p)]"
      "scale_exps s' = scale_exps s" "rv_exps s' = rv_exps s" "durations s' = durations s"
proof (cases "on_world (create_pod A p) s")
  case (Pair r s1)
  have frame: "events s1 = events s" "scale_exps s1 = scale_exps s" "rv_exps s1 = rv_exps s"
    "durations s1 = durations s"
    using on_world_frame [of "create_pod A p" s] Pair by simp_all
  show thesis
  proof (cases r)
    case None
    with Pair frame show thesis
      by (intro made [of "record_event EventNormal ''SuccessfulCreate'' (pod_name p) s1"])
        (simp_all add: createOnePod_def)
  next
    case (Some e)
    with Pair frame show thesis
      by (intro failed [of e "record_event EventWarning ''FailedCreate'' (pod_name p) s1"])
        (simp_all add: createOnePod_def)
  qed
qed

lemma creation_inv_step:
  assumes "creation_inv s0 newPods st"
  shows "creation_inv s0 newPods (snd (create_next A iu st))"
proof (cases "podsCreationChan st")
  case Nil
  with assms show ?thesis by (simp add: create_next_def)
next
  case (Cons p ps)
  from assms obtain evs where evs: "events (creation_sys st) = events s0 @ evs"
    "event_objects ''SuccessfulDelete'' evs = []" "successPodNames st = fset_of_list (event_objects ''SuccessfulCreate'' evs)"
    "created st = length (event_objects ''SuccessfulCreate'' evs)"
    by (auto simp: creation_inv_def)
  have sub: "p \<in> set newPods" "set ps \<subseteq> set newPods"
    using assms Cons by (auto simp: creation_inv_def)
  show ?thesis
  proof (cases rule: createOnePod_cases [of A iu p "creation_sys st"])
    case (failed e s')
    with Cons evs sub assms show ?thesis
      by (auto simp: create_next_def creation_inv_def)
  next
    case (made s')
    with Cons evs sub assms show ?thesis
      by (auto simp: create_next_def creation_inv_def fset_of_list.rep_eq)
  qed
qed

lemma createPods_effect:
  assumes "createPods M A num iu hash ids s = ((modified, err), s')"
    and "names = fset_of_list (map pod_name (newVersionedPods M iu hash (nat num) ids))"
    and "ok = fset_of_list (event_objects ''SuccessfulCreate'' (drop (length (events s)) (events s')))"
  shows "modified \<longleftrightarrow> ok \<noteq> {||}" and "ok |\<subseteq>| names"
    and "length (event_objects ''SuccessfulCreate'' (drop (length (events s)) (events s')))
      \<le> length (newVersionedPods M iu hash (nat num) ids)"
    and "pending_names (scale_exps s') k a =
      (if k = GetControllerKey M iu \<and> a = Create
       then (pending_names (scale_exps s) k a |-| names) |\<union>| ok
       else pending_names (scale_exps s) k a)"
    and "rv_exps s' = rv_exps s" and "durations s' = durations s"
    and "events_grow s s'" and "new_objects ''SuccessfulDelete'' s s' = []"
proof -
  let ?new = "newVersionedPods M iu hash (nat num) ids" and ?key = "GetControllerKey M iu"
  let ?s0 = "foldl (\<lambda>s p. expect_scale ?key Create (pod_name p) s) s ?new"
  let ?st0 = "\<lparr>podsCreationChan = ?new, created = 0, successPodNames = {||}, creation_sys = ?s0\<rparr>"
  obtain n st where run: "DoItSlowly (length ?new) initialBatchSize (create_next A iu) ?st0 = ((n, err), st)"
    and s': "s' = foldl (\<lambda>s p. if pod_name p |\<notin>| successPodNames st
               then observe_scale ?key Create (pod_name p) s else s) (creation_sys st) ?new"
    and m: "modified \<longleftrightarrow> created st \<noteq> 0"
    using assms(1) by (auto simp: createPods_def NewVersionedPods_def Let_def split: prod.splits)
  have "creation_inv ?s0 ?new ?st0"
    by (auto simp: creation_inv_def intro: exI [of _ "[]"])
  then have inv: "creation_inv ?s0 ?new st"
    using slow_batches_invariant [of "creation_inv ?s0 ?new" "create_next A iu" ?st0]
      creation_inv_step run unfolding DoItSlowly_def by (metis snd_conv)
  then obtain evs where evs: "events (creation_sys st) = events s @ evs"
    "successPodNames st = fset_of_list (event_objects ''SuccessfulCreate'' evs)"
    "created st = length (event_objects ''SuccessfulCreate'' evs)"
    "event_objects ''SuccessfulDelete'' evs = []"
    by (auto simp: creation_inv_def sys_frame)
  show "events_grow s s'" "new_objects ''SuccessfulDelete'' s s' = []"
    using evs(1,4) s' by (simp_all add: sys_frame events_grow_def new_objects_def)
  have ok: "ok = successPodNames st"
    using evs(1,2) assms(3) s' by (simp add: sys_frame)
  show "length (event_objects ''SuccessfulCreate'' (drop (length (events s)) (events s'))) \<le> length ?new"
    using evs(1,3) s' inv by (simp add: sys_frame creation_inv_def)
  show "modified \<longleftrightarrow> ok \<noteq> {||}"
    using m evs(2,3) ok by (cases "event_objects ''SuccessfulCreate'' evs") auto
  have sub: "fset ok \<subseteq> pod_name ` set ?new" using inv ok by (simp add: creation_inv_def)
  then show "ok |\<subseteq>| names"
    by (auto simp: assms(2) fset_of_list.rep_eq less_eq_fset.rep_eq)
  show "rv_exps s' = rv_exps s" "durations s' = durations s"
    using inv s' by (simp_all add: creation_inv_def sys_frame)
  have exps: "scale_exps s' = scale_store.observe_all
      (scale_store.expect_all (scale_exps s) ?key Create (map pod_name ?new)) ?key Create
      (filter (\<lambda>n. n |\<notin>| ok) (map pod_name ?new))"
    using inv s' ok by (simp add: creation_inv_def rollback_fold scale_exps_expect_fold)
  have "(P |\<union>| names) |-| fset_of_list (filter (\<lambda>n. n |\<notin>| ok) (map pod_name ?new)) = (P |-| names) |\<union>| ok" for P
    using sub by (auto simp: assms(2) fset_eq_iff fset_of_list.rep_eq)
  then show "pending_names (scale_exps s') k a =
      (if k = ?key \<and> a = Create then (pending_names (scale_exps s) k a |-| names) |\<union>| ok
       else pending_names (scale_exps s) k a)"
    unfolding exps scale_store.pending_observe_all scale_store.pending_expect_all assms(2) by auto
qed

subsection \<open>What deletePods does\<close>

lemma delete_each_effect:
  assumes "delete_each A key ps modified s = ((m, err), s')"
  shows "\<exists>done rest. ps = done @ rest \<and> (err = None \<longleftrightarrow> rest = []) \<and> (m \<longleftrightarrow> modified \<or> done \<noteq> []) \<and>
    events s' = events s @ map (\<lambda>p. event_of EventNormal ''SuccessfulDelete'' (pod_name p)) done @
      (if rest = [] then [] else [event_of EventWarning ''FailedDelete'' (pod_name (hd rest))]) \<and>
    (\<forall>k a. pending_names (scale_exps s') k a =
      (if k = key \<and> a = Delete
       then (pending_names (scale_exps s) k a |\<union>| fset_of_list (map pod_name done))
         |-| (if rest = [] then {||} else {|pod_name (hd rest)|})
       else pending_names (scale_exps s) k a)) \<and>
    rv_exps s' = rv_exps s \<and> durations s' = durations s"
  using assms
proof (induction ps arbitrary: modified s)
  case Nil
  then show ?case by simp
next
  case (Cons p ps)
  let ?s0 = "expect_scale key Delete (pod_name p) s"
  obtain r s1 where call: "on_world (delete_pod A p) ?s0 = (r, s1)" by fastforce
  have frame: "events s1 = events s" "scale_exps s1 = ExpectScale (scale_exps s) key Delete (pod_name p)"
    "rv_exps s1 = rv_exps s" "durations s1 = durations s"
    using on_world_frame [of "delete_pod A p" ?s0] call by simp_all
  show ?case
  proof (cases r)
    case (Some e)
    then have res: "m = modified" "err = Some e"
      "s' = record_event EventWarning ''FailedDelete'' (pod_name p) (observe_scale key Delete (pod_name p) s1)"
      using Cons.prems call by simp_all
    show ?thesis
      using res frame
      by (intro exI [of _ "[]"] exI [of _ "p # ps"]) (auto simp: pending_names_simps)
  next
    case None
    let ?s2 = "record_event EventNormal ''SuccessfulDelete'' (pod_name p) s1"
    have "delete_each A key ps True ?s2 = ((m, err), s')"
      using Cons.prems call None by simp
    from Cons.IH [OF this] obtain dn rest where IH: "ps = dn @ rest" "err = None \<longleftrightarrow> rest = []" m
      "events s' = events ?s2 @ map (\<lambda>p. event_of EventNormal ''SuccessfulDelete'' (pod_name p)) dn @
        (if rest = [] then [] else [event_of EventWarning ''FailedDelete'' (pod_name (hd rest))])"
      "\<forall>k a. pending_names (scale_exps s') k a =
        (if k = key \<and> a = Delete
         then (pending_names (scale_exps ?s2) k a |\<union>| fset_of_list (map pod_name dn))
           |-| (if rest = [] then {||} else {|pod_name (hd rest)|})
         else pending_names (scale_exps ?s2) k a)"
      "rv_exps s' = rv_exps ?s2" "durations s' = durations ?s2"
      by blast
    show ?thesis
      using IH frame
      by (intro exI [of _ "p # dn"] exI [of _ rest]) (simp add: pending_names_simps)
  qed
qed

lemma deletePods_effect:
  assumes "deletePods M A iu ps s = ((m, err), s')"
  obtains dn rest where "ps = dn @ rest" "err = None \<longleftrightarrow> rest = []" "m \<longleftrightarrow> dn \<noteq> []"
    "event_objects ''SuccessfulDelete'' (drop (length (events s)) (events s')) = map pod_name dn"
    "\<And>k a. pending_names (scale_exps s') k a =
      (if k = GetControllerKey M iu \<and> a = Delete
       then (pending_names (scale_exps s) k a |\<union>| fset_of_list (map pod_name dn))
         |-| (if rest = [] then {||} else {|pod_name (hd rest)|})
       else pending_names (scale_exps s) k a)"
    "events_grow s s'" "new_objects ''SuccessfulCreate'' s s' = []"
proof -
  have objs: "event_objects ''SuccessfulDelete''
      (map (\<lambda>p. event_of EventNormal ''SuccessfulDelete'' (pod_name p)) xs) = map pod_name xs"
    "event_objects ''SuccessfulCreate''
      (map (\<lambda>p. event_of EventNormal ''SuccessfulDelete'' (pod_name p)) xs) = []"
    for xs :: "pod list"
    by (induction xs) simp_all
  from assms have "delete_each A (GetControllerKey M iu) ps False s = ((m, err), s')"
    by (simp add: deletePods_def)
  from delete_each_effect [OF this] obtain dn rest where
    "ps = dn @ rest" "err = None \<longleftrightarrow> rest = []" "m \<longleftrightarrow> dn \<noteq> []"
    "events s' = events s @ map (\<lambda>p. event_of EventNormal ''SuccessfulDelete'' (pod_name p)) dn @
      (if rest = [] then [] else [event_of EventWarning ''FailedDelete'' (pod_name (hd rest))])"
    "\<And>k a. pending_names (scale_exps s') k a =
      (if k = GetControllerKey M iu \<and> a = Delete
       then (pending_names (scale_exps s) k a |\<union>| fset_of_list (map pod_name dn))
         |-| (if rest = [] then {||} else {|pod_name (hd rest)|})
       else pending_names (scale_exps s) k a)"
    by auto
  then show thesis by (intro that [of dn rest]) (simp_all add: objs events_grow_def new_objects_def)
qed

lemma deletePods_events:
  assumes "deletePods M A iu ps s = ((m, err), s')"
  shows "\<exists>dn rest. ps = dn @ rest \<and> (err = None \<longleftrightarrow> rest = []) \<and> (m \<longleftrightarrow> dn \<noteq> []) \<and>
    event_objects ''SuccessfulDelete'' (drop (length (events s)) (events s')) = map pod_name dn"
  by (rule deletePods_effect [OF assms]) blast

lemma deletePods_nothing:
  assumes "deletePods M A iu ps s = ((False, None), s')"
  shows "ps = [] \<and> s' = s"
proof -
  from deletePods_effect [OF assms] have "ps = []" by fastforce
  with assms show ?thesis by (simp add: deletePods_def)
qed

subsection \<open>The two deletion plans of a call\<close>

text \<open>The pods that \<open>scale_in_steps\<close> hands to \<open>deletePods\<close>, first and second step.\<close>

definition specified_plan :: "pod_lib \<Rightarrow> time \<Rightarrow> int32 \<Rightarrow> expectation_diffs \<Rightarrow> pod list \<Rightarrow> pod list" where
  "specified_plan L now mrs d pods =
     fst (pick_within_limit (IsPodAvailable L now mrs) (deleteReadyLimit d) (filter IsSpecifiedDelete pods))"

definition scale_in_plan :: "pod_lib \<Rightarrow> expectation_diffs \<Rightarrow> string \<Rightarrow> pod list \<Rightarrow> pod list" where
  "scale_in_plan L d hash pods =
     fst (pick_within_limit IsRunning (deleteReadyLimit d)
            (choosePodsToDelete L (scaleDownNum d) (filter (is_pod_update hash) pods)))"

lemma scale_in_steps_cases:
  assumes "scale_in_steps L M A iu d (filter IsSpecifiedDelete pods) (filter (is_pod_update hash) pods) s
      = ((m, err), s')"
    and "now = fst (clock_now A (world s))"
  obtains (specified) s1 where "events s1 = events s" "scale_exps s1 = scale_exps s"
      "deletePods M A iu (specified_plan L now (sp_min_ready_seconds (iu_spec iu)) d pods) s1 = ((m, err), s')"
  | (scale_in) s1 where "events s1 = events s" "scale_exps s1 = scale_exps s" "scaleDownNum d > 0"
      "deletePods M A iu (scale_in_plan L d hash pods) s1 = ((m, err), s')"
  | (nothing) "\<not> m" "err = None" "events s' = events s" "scale_exps s' = scale_exps s"
proof -
  let ?specified = "filter IsSpecifiedDelete pods" and ?mrs = "sp_min_ready_seconds (iu_spec iu)"
  let ?plan = "specified_plan L now ?mrs d pods"
  define second where "second = (\<lambda>limit s. if scaleDownNum d > 0
      then deletePods M A iu (fst (pick_within_limit IsRunning limit
             (choosePodsToDelete L (scaleDownNum d) (filter (is_pod_update hash) pods)))) s
      else ((False, None), s))"
  have done2: thesis if "second (deleteReadyLimit d) s1 = ((m, err), s')"
    "events s1 = events s" "scale_exps s1 = scale_exps s" for s1
  proof (cases "scaleDownNum d > 0")
    case True
    with that show thesis by (intro scale_in [of s1]) (simp_all add: second_def scale_in_plan_def)
  next
    case False
    with that have eq: "(False, None) = (m, err)" "s1 = s'" by (simp_all add: second_def)
    have "\<not> m" "err = None" using eq(1) by blast+
    moreover have "events s' = events s" "scale_exps s' = scale_exps s" using that eq(2) by simp_all
    ultimately show thesis by (rule nothing)
  qed
  show thesis
  proof (cases "?specified = []")
    case True
    then have "scale_in_steps L M A iu d ?specified (filter (is_pod_update hash) pods) s
        = second (deleteReadyLimit d) s"
      by (simp add: scale_in_steps_def second_def Let_def)
    with assms(1) have "second (deleteReadyLimit d) s = ((m, err), s')" by simp
    then show thesis by (rule done2) simp_all
  next
    case False
    obtain now' s1 where clock: "on_world (clock_now A) s = (now', s1)" by fastforce
    have s1: "events s1 = events s" "scale_exps s1 = scale_exps s" "now' = now"
      using on_world_frame [of "clock_now A" s] clock assms(2) by simp_all
    obtain limit where pick: "pick_within_limit (IsPodAvailable L now ?mrs) (deleteReadyLimit d) ?specified
        = (?plan, limit)"
      by (metis specified_plan_def prod.collapse)
    obtain m1 e1 s2 where del: "deletePods M A iu ?plan s1 = ((m1, e1), s2)"
      by (metis prod.collapse)
    show thesis
    proof (cases "e1 \<noteq> None \<or> m1")
      case True
      then have "scale_in_steps L M A iu d ?specified (filter (is_pod_update hash) pods) s
          = ((m1, e1), s2)"
        using False clock s1(3) pick del by (auto simp: scale_in_steps_def Let_def)
      with assms(1) del have "deletePods M A iu ?plan s1 = ((m, err), s')" by simp
      with s1 show thesis by (intro specified) simp_all
    next
      case none: False
      then have "e1 = None" "\<not> m1" by simp_all
      with del have plan: "?plan = []" and s2: "s2 = s1"
        using deletePods_nothing [of M A iu ?plan s1 s2] by simp_all
      then have "limit = deleteReadyLimit d"
        using pick_within_limit_counts [of "IsPodAvailable L now ?mrs" "deleteReadyLimit d" ?specified]
          pick by simp
      then have "scale_in_steps L M A iu d ?specified (filter (is_pod_update hash) pods) s
          = second (deleteReadyLimit d) s1"
        using False clock s1(3) pick del none s2 by (simp add: scale_in_steps_def second_def Let_def)
      with assms(1) have "second (deleteReadyLimit d) s1 = ((m, err), s')" by simp
      then show thesis by (rule done2) (simp_all add: s1)
    qed
  qed
qed


subsection \<open>The cases of Scale\<close>

lemma Scale_cases:
  assumes "Scale L M A iu0 iu cur r pods s = Inr ((m, err), s')"
  obtains (no_replicas) "\<not> m" "err = Some (Errorf ''spec.Replicas is nil'')" "s' = s"
      "sp_replicas (iu_spec iu) = None"
  | (scale_up) d ids w where "calculateDiffsWithExpectation L iu pods cur r = Inr d" "scaleUpNum d > 0"
      "getOrGenAvailableIDs A (scaleUpNum d) pods (world s) = Some (ids, w)"
      "createPods M A (scaleUpNum d) iu r (sorted_list_of_fset ids) (s\<lparr>world := w\<rparr>) = ((m, err), s')"
  | (scale_in) d where "calculateDiffsWithExpectation L iu pods cur r = Inr d" "\<not> scaleUpNum d > 0"
      "scale_in_steps L M A iu d (filter IsSpecifiedDelete pods) (filter (is_pod_update r) pods) s
        = ((m, err), s')"
proof (cases "sp_replicas (iu_spec iu)")
  case None
  with assms have "(False, Some (Errorf ''spec.Replicas is nil''), s) = (m, err, s')"
    by (simp add: Scale_def)
  with None show thesis by (intro no_replicas) auto
next
  case (Some n)
  from assms Some obtain d where d: "calculateDiffsWithExpectation L iu pods cur r = Inr d"
    by (cases "calculateDiffsWithExpectation L iu pods cur r")
      (auto simp: Scale_def getPlannedDeletedPods_def Let_def GroupUpdateAndNotUpdatePods_filter)
  show thesis
  proof (cases "scaleUpNum d > 0")
    case True
    with assms Some d obtain ids w where
      ids: "getOrGenAvailableIDs A (scaleUpNum d) pods (world s) = Some (ids, w)"
      by (cases "getOrGenAvailableIDs A (scaleUpNum d) pods (world s)")
        (auto simp: Scale_def getPlannedDeletedPods_def Let_def GroupUpdateAndNotUpdatePods_filter)
    with True assms Some d
    have "createPods M A (scaleUpNum d) iu r (sorted_list_of_fset ids) (s\<lparr>world := w\<rparr>) = ((m, err), s')"
      by (simp add: Scale_def getPlannedDeletedPods_def Let_def GroupUpdateAndNotUpdatePods_filter)
    with d True ids show thesis by (rule scale_up)
  next
    case False
    with assms Some d
    have "scale_in_steps L M A iu d (filter IsSpecifiedDelete pods) (filter (is_pod_update r) pods) s
        = ((m, err), s')"
      by (simp add: Scale_def getPlannedDeletedPods_def Let_def GroupUpdateAndNotUpdatePods_filter)
    with d False show thesis by (rule scale_in)
  qed
qed

lemma getOrGenAvailableIDs_fresh:
  assumes "getOrGenAvailableIDs A num pods w = Some (ids, w')"
  shows "ids |\<inter>| existing_ids pods = {||} \<and> fcard ids \<le> nat num"
proof -
  from assms have "gen_ids (random_string A LengthOfInstanceID) (existing_ids pods) (nat num) {||} w
      = Some (ids, w')"
    by (simp add: getOrGenAvailableIDs_def)
  from gen_ids_fresh [OF this] show ?thesis by (simp add: fcard.rep_eq)
qed

lemma plan_msets:
  assumes "sort_contract (sort_pods L)"
  shows "mset (specified_plan L now mrs d pods) \<subseteq># mset (filter IsSpecifiedDelete pods)"
    and "mset (scale_in_plan L d r pods) \<subseteq># mset (filter (is_pod_update r) pods)"
proof -
  have picked: "mset (fst (pick_within_limit ready limit ps)) \<subseteq># mset ps" for ready limit ps
    using pick_within_limit_counts by blast
  show "mset (specified_plan L now mrs d pods) \<subseteq># mset (filter IsSpecifiedDelete pods)"
    unfolding specified_plan_def by (rule picked)
  show "mset (scale_in_plan L d r pods) \<subseteq># mset (filter (is_pod_update r) pods)"
    unfolding scale_in_plan_def
    by (rule subset_mset.order_trans [OF picked choosePodsToDelete_mset(1) [OF assms]])
qed

lemma plan_ready_counts:
  "count_where (IsPodAvailable L now mrs) (specified_plan L now mrs d pods) \<le> max 0 (deleteReadyLimit d)"
  "count_where IsRunning (scale_in_plan L d r pods) \<le> max 0 (deleteReadyLimit d)"
  unfolding specified_plan_def scale_in_plan_def by (simp_all add: pick_within_limit_counts)

lemma scale_in_plan_length:
  assumes "sort_contract (sort_pods L)" "0 \<le> scaleDownNum d"
  shows "int (length (scale_in_plan L d r pods)) \<le> scaleDownNum d"
proof -
  have "length (scale_in_plan L d r pods)
      \<le> length (choosePodsToDelete L (scaleDownNum d) (filter (is_pod_update r) pods))"
    unfolding scale_in_plan_def using pick_within_limit_counts
    by (metis size_mset size_mset_mono)
  with choosePodsToDelete_mset(2) [OF assms, of "filter (is_pod_update r) pods"]
  show ?thesis by (simp add: min_def split: if_splits)
qed

lemma mset_filter_subset: "mset xs \<subseteq># mset (filter P ys) \<Longrightarrow> mset xs \<subseteq># mset ys"
  by (metis mset_filter multiset_filter_subset subset_mset.order_trans)


text \<open>The two ways in which \<open>Scale\<close> picks pods to delete.\<close>

definition deletion_plan ::
  "pod_lib \<Rightarrow> time \<Rightarrow> int32 \<Rightarrow> string \<Rightarrow> pod list \<Rightarrow> expectation_diffs \<Rightarrow> pod list \<Rightarrow> bool" where
  "deletion_plan L now mrs r pods d plan \<longleftrightarrow>
     (mset plan \<subseteq># mset (filter IsSpecifiedDelete pods) \<and>
        count_where (IsPodAvailable L now mrs) plan \<le> max 0 (deleteReadyLimit d)) \<or>
     (mset plan \<subseteq># mset (filter (is_pod_update r) pods) \<and>
        count_where IsRunning plan \<le> max 0 (deleteReadyLimit d) \<and> int (length plan) \<le> scaleDownNum d) \<or>
     plan = []"

lemma deletion_plan_specified:
  "sort_contract (sort_pods L) \<Longrightarrow> deletion_plan L now mrs r pods d (specified_plan L now mrs d pods)"
  using plan_msets(1) plan_ready_counts(1) by (auto simp: deletion_plan_def simp del: mset_filter)

lemma deletion_plan_scale_in:
  assumes "sort_contract (sort_pods L)" "scaleDownNum d > 0"
  shows "deletion_plan L now mrs r pods d (scale_in_plan L d r pods)"
  using plan_msets(2) [OF assms(1)] plan_ready_counts(2) scale_in_plan_length [OF assms(1)] assms(2)
  by (auto simp: deletion_plan_def simp del: mset_filter)

lemma deletion_plan_bounds:
  assumes "deletion_plan L now mrs r pods d plan"
  shows "mset plan \<subseteq># mset pods"
    and "count_where (IsPodAvailable L now mrs) plan \<le> max 0 (deleteReadyLimit d)"
proof -
  have "count_where (IsPodAvailable L now mrs) plan \<le> count_where IsRunning plan"
    by (induction plan) (auto dest: IsPodAvailable_running)
  with assms show "count_where (IsPodAvailable L now mrs) plan \<le> max 0 (deleteReadyLimit d)"
    by (auto simp: deletion_plan_def)
  show "mset plan \<subseteq># mset pods"
    using assms mset_filter_subset by (auto simp: deletion_plan_def simp del: mset_filter)
qed

lemma distinct_mset_subset: "distinct ys \<Longrightarrow> mset xs \<subseteq># mset ys \<Longrightarrow> distinct xs"
proof -
  assume d: "distinct ys" and sub: "mset xs \<subseteq># mset ys"
  have "count (mset xs) a = (if a \<in> set xs then 1 else 0)" for a
  proof -
    have "count (mset xs) a \<le> count (mset ys) a" using sub by (rule mset_subset_eq_count)
    also have "\<dots> \<le> 1" using d by (simp add: distinct_count_atmost_1)
    finally show ?thesis using count_mset_0_iff [of xs a] by (auto simp: le_Suc_eq)
  qed
  then show "distinct xs" by (simp add: distinct_count_atmost_1)
qed

text \<open>Deleting pods by name removes exactly those pods when the names are distinct.\<close>

lemma count_where_without:
  assumes "mset dn \<subseteq># mset pods" and "distinct (map pod_name pods)"
  shows "count_where P (filter (\<lambda>p. pod_name p \<notin> set (map pod_name dn)) pods) =
    count_where P pods - count_where P dn"
proof -
  let ?gone = "filter (\<lambda>p. pod_name p \<in> set (map pod_name dn)) pods"
  have "distinct pods" using assms(2) by (simp add: distinct_map)
  then have dist: "distinct dn" using assms(1) by (rule distinct_mset_subset)
  have sub: "set dn \<subseteq> set pods" using assms(1) by (metis set_mset_mono set_mset_mset)
  have "set ?gone = set dn"
    using sub assms(2) by (auto simp: distinct_map inj_on_def) 
  with \<open>distinct pods\<close> dist have "mset ?gone = mset dn"
    using set_eq_iff_mset_eq_distinct [of ?gone dn] by simp
  then have "size (filter_mset P (mset ?gone)) = size (filter_mset P (mset dn))" by simp
  then have "count_where P ?gone = count_where P dn"
    unfolding count_where_def mset_filter [symmetric] size_mset by simp
  moreover have "count_where P pods = count_where P ?gone +
      count_where P (filter (\<lambda>p. \<not> pod_name p \<in> set (map pod_name dn)) pods)"
    by (induction pods) auto
  ultimately show ?thesis by simp
qed

lemma Scale_deletion_plan:
  assumes "Scale L M A iu0 iu cur r pods s = Inr ((modified, err), s')"
    and "calculateDiffsWithExpectation L iu pods cur r = Inr d" and "scaleUpNum d \<le> 0"
    and "sort_contract (sort_pods L)"
    and "gone = event_objects ''SuccessfulDelete'' (drop (length (events s)) (events s'))"
  shows "\<exists>dn rest. gone = map pod_name dn \<and> (modified \<longleftrightarrow> dn \<noteq> []) \<and> (err = None \<longleftrightarrow> rest = []) \<and>
    deletion_plan L (fst (clock_now A (world s))) (sp_min_ready_seconds (iu_spec iu)) r pods d (dn @ rest)"
  using assms(1)
proof (cases rule: Scale_cases)
  case no_replicas
  with assms(2) show ?thesis by (simp add: calculateDiffsWithExpectation_def)
next
  case (scale_up d')
  with assms(2,3) show ?thesis by simp
next
  case (scale_in d')
  then have d': "d' = d" using assms(2) by simp
  let ?now = "fst (clock_now A (world s))" and ?mrs = "sp_min_ready_seconds (iu_spec iu)"
  show ?thesis
    using scale_in(3) [unfolded d'] refl [of ?now]
  proof (cases rule: scale_in_steps_cases)
    case (specified s1)
    from deletePods_events [OF specified(3)] show ?thesis
      unfolding specified(1) assms(5) using deletion_plan_specified [OF assms(4)] by metis
  next
    case (scale_in s1)
    from deletePods_events [OF scale_in(4)] show ?thesis
      unfolding scale_in(1) assms(5) using deletion_plan_scale_in [OF assms(4) scale_in(3)] by metis
  next
    case nothing
    with assms(5) show ?thesis
      by (intro exI [of _ "[]"]) (simp add: deletion_plan_def)
  qed
qed

subsection \<open>The account of a call\<close>

text \<open>
  From a state in which the resource expects nothing, a call of \<open>Scale\<close> expects exactly what it did:
  \<open>keeps_account\<close> relates the new events of a step and the pending names of a key after it.
\<close>

definition keeps_account :: "string \<Rightarrow> 'w sys \<Rightarrow> 'w sys \<Rightarrow> bool" where
  "keeps_account key s s' \<longleftrightarrow> events_grow s s' \<and>
     pending_names (scale_exps s') key Create = fset_of_list (new_objects ''SuccessfulCreate'' s s') \<and>
     pending_names (scale_exps s') key Delete = fset_of_list (new_objects ''SuccessfulDelete'' s s') \<and>
     (\<forall>k a. k = key \<or> pending_names (scale_exps s') k a = pending_names (scale_exps s) k a)"

lemma keeps_account_cong:
  assumes "events s1 = events s" "pending_names (scale_exps s1) = pending_names (scale_exps s)"
  shows "keeps_account key s1 s' = keeps_account key s s'"
  using assms(2) by (simp add: keeps_account_def new_objects_cong [OF assms(1) refl])

lemma keeps_account_trans:
  assumes "keeps_account key s s'" "scale_exps s'' = scale_exps s'"
    and "events_grow s' s''" "new_objects ''SuccessfulCreate'' s' s'' = []" "new_objects ''SuccessfulDelete'' s' s'' = []"
  shows "keeps_account key s s''"
  using assms new_objects_trans [of s s' s''] events_grow_trans [of s s' s'']
  by (simp add: keeps_account_def)

lemma keeps_account_refl:
  assumes "\<And>a. pending_names (scale_exps s) key a = {||}"
    and "events s' = events s" "pending_names (scale_exps s') = pending_names (scale_exps s)"
  shows "keeps_account key s s'"
  using assms by (simp add: keeps_account_def events_grow_same new_objects_same)

lemma createPods_account:
  assumes "createPods M A num iu hash ids s = ((m, err), s')"
    and "\<And>a. pending_names (scale_exps s) (GetControllerKey M iu) a = {||}"
  shows "keeps_account (GetControllerKey M iu) s s' \<and>
    (m \<longleftrightarrow> new_objects ''SuccessfulCreate'' s s' \<noteq> [] \<or> new_objects ''SuccessfulDelete'' s s' \<noteq> [])"
proof -
  note e = createPods_effect [OF assms(1) refl refl]
  have made: "fset_of_list (new_objects ''SuccessfulCreate'' s s') = {||} \<longleftrightarrow> new_objects ''SuccessfulCreate'' s s' = []"
    by (cases "new_objects ''SuccessfulCreate'' s s'") auto
  from e(1,4,7,8) assms(2) made show ?thesis
    by (auto simp: keeps_account_def new_objects_def)
qed

lemma fminus_other: "R \<or> x |\<notin>| X \<Longrightarrow> X |-| (if R then {||} else {|x|}) = X"
  by auto

lemma deletePods_account:
  assumes "deletePods M A iu plan s = ((m, err), s')" and "distinct (map pod_name plan)"
    and "\<And>a. pending_names (scale_exps s) (GetControllerKey M iu) a = {||}"
  shows "keeps_account (GetControllerKey M iu) s s' \<and>
    (m \<longleftrightarrow> new_objects ''SuccessfulCreate'' s s' \<noteq> [] \<or> new_objects ''SuccessfulDelete'' s s' \<noteq> [])"
proof (rule deletePods_effect [OF assms(1)])
  fix dn rest
  assume e: "plan = dn @ rest" "m \<longleftrightarrow> dn \<noteq> []"
    "event_objects ''SuccessfulDelete'' (drop (length (events s)) (events s')) = map pod_name dn"
    "\<And>k a. pending_names (scale_exps s') k a =
      (if k = GetControllerKey M iu \<and> a = Delete
       then (pending_names (scale_exps s) k a |\<union>| fset_of_list (map pod_name dn))
         |-| (if rest = [] then {||} else {|pod_name (hd rest)|})
       else pending_names (scale_exps s) k a)"
    "events_grow s s'" "new_objects ''SuccessfulCreate'' s s' = []"
  have "rest = [] \<or> pod_name (hd rest) |\<notin>| fset_of_list (map pod_name dn)"
    using assms(2) unfolding e(1) by (cases rest) (auto simp: fset_of_list.rep_eq image_iff)
  then have "fset_of_list (map pod_name dn) |-| (if rest = [] then {||} else {|pod_name (hd rest)|}) =
      fset_of_list (map pod_name dn)"
    by (rule fminus_other)
  with e assms(3) show ?thesis by (simp add: keeps_account_def new_objects_def)
qed

lemma Scale_account:
  assumes "Scale L M A iu0 iu cur r pods s = Inr ((m, err), s')"
    and "sort_contract (sort_pods L)" and "distinct (map pod_name pods)"
    and "\<And>a. pending_names (scale_exps s) (GetControllerKey M iu) a = {||}"
  shows "keeps_account (GetControllerKey M iu) s s' \<and>
    (m \<longleftrightarrow> new_objects ''SuccessfulCreate'' s s' \<noteq> [] \<or> new_objects ''SuccessfulDelete'' s s' \<noteq> [])"
  using assms(1)
proof (cases rule: Scale_cases)
  case no_replicas
  then show ?thesis using keeps_account_refl [OF assms(4)] by (simp add: new_objects_same)
next
  case (scale_up d ids w)
  from createPods_account [OF scale_up(4)] assms(4) show ?thesis
    using keeps_account_cong [of "s\<lparr>world := w\<rparr>" s] new_objects_cong(1) [of "s\<lparr>world := w\<rparr>" s s' s'] by simp
next
  case (scale_in d)
  have plan_case: ?thesis if del: "deletePods M A iu plan s1 = ((m, err), s')"
    and sub: "mset plan \<subseteq># mset pods" and s1: "events s1 = events s" "scale_exps s1 = scale_exps s" for plan s1
  proof -
    have "distinct (map pod_name plan)"
      using distinct_mset_subset [OF assms(3) image_mset_subseteq_mono [OF sub, of pod_name, folded mset_map]] .
    from deletePods_account [OF del this] assms(4) s1 show ?thesis
      using keeps_account_cong [of s1 s] new_objects_cong(1) [of s1 s s' s'] by simp
  qed
  show ?thesis
    using scale_in(3) refl [of "fst (clock_now A (world s))"]
  proof (cases rule: scale_in_steps_cases)
    case (specified s1)
    from plan_case [OF specified(3) mset_filter_subset [OF plan_msets(1) [OF assms(2)]] specified(1,2)] show ?thesis .
  next
    case (scale_in s1)
    from plan_case [OF scale_in(4) mset_filter_subset [OF plan_msets(2) [OF assms(2)]] scale_in(1,2)] show ?thesis .
  next
    case nothing
    then show ?thesis using keeps_account_refl [OF assms(4), of s'] by (simp add: new_objects_same)
  qed
qed

subsection \<open>The room for creations\<close>

definition creates_within :: "pod_lib \<Rightarrow> inplaceu \<Rightarrow> pod list \<Rightarrow> string list \<Rightarrow> bool" where
  "creates_within L iu pods made \<longleftrightarrow> made = [] \<or>
     (\<exists>rs ru. sp_replicas (iu_spec iu) = Some rs \<and> ds_rolling_update (sp_strategy (iu_spec iu)) = Some ru \<and>
        int (length pods) + int (length made) \<le> sint rs + max 0 (max_surge L ru (sint rs)))"

lemma creates_within_spec:
  assumes "creates_within L iu' pods made" and "sp_replicas (iu_spec iu') = sp_replicas (iu_spec iu)"
    and "sp_strategy (iu_spec iu') = sp_strategy (iu_spec iu)"
  shows "creates_within L iu pods made"
  using assms by (simp add: creates_within_def)

lemma scale_up_made:
  assumes "createPods M A (scaleUpNum d) iu r ids s = ((m, err), s')" and "0 < scaleUpNum d"
  shows "int (length (new_objects ''SuccessfulCreate'' s s')) \<le> scaleUpNum d"
proof -
  have "length (new_objects ''SuccessfulCreate'' s s') \<le> length (newVersionedPods M iu r (nat (scaleUpNum d)) ids)"
    using createPods_effect(3) [OF assms(1) refl refl] by (simp add: new_objects_def)
  also have "\<dots> \<le> nat (scaleUpNum d)" by (simp add: newVersionedPods_map)
  finally show ?thesis using assms(2) by linarith
qed

lemma Scale_creates_within:
  assumes "Scale L M A iu0 iu cur r pods s = Inr ((m, err), s')"
  shows "creates_within L iu pods (new_objects ''SuccessfulCreate'' s s')"
  using assms
proof (cases rule: Scale_cases)
  case no_replicas
  then show ?thesis by (simp add: creates_within_def new_objects_same)
next
  case (scale_up d ids w)
  obtain rs ru where spec: "sp_replicas (iu_spec iu) = Some rs" "ds_rolling_update (sp_strategy (iu_spec iu)) = Some ru"
    using scale_up(1) by (auto simp: calculateDiffsWithExpectation_def Let_def bindP_eq_Inr deref_def split: option.splits)
  from scale_up(1,2) have "int (length pods) + scaleUpNum d \<le> sint rs + max 0 (max_surge L ru (sint rs))"
    unfolding calculateDiffs_eq [OF spec] diffs_of_counts_spec Let_def spec_surge_def by auto
  moreover have "new_objects ''SuccessfulCreate'' (s\<lparr>world := w\<rparr>) s' = new_objects ''SuccessfulCreate'' s s'"
    by (rule new_objects_cong) simp_all
  then have "int (length (new_objects ''SuccessfulCreate'' s s')) \<le> scaleUpNum d"
    using scale_up_made [OF scale_up(4,2)] by simp
  ultimately show ?thesis unfolding creates_within_def using spec
    by (intro disjI2 exI [of _ rs] exI [of _ ru]) simp
next
  case (scale_in d)
  have none: "new_objects ''SuccessfulCreate'' s s' = []"
    if "deletePods M A iu plan s1 = ((m, err), s')" "events s1 = events s" for plan s1
    by (rule deletePods_effect [OF that(1)]) (simp add: new_objects_cong(1) [OF that(2) refl])
  have "new_objects ''SuccessfulCreate'' s s' = []"
    using scale_in(3) refl [of "fst (clock_now A (world s))"]
    by (cases rule: scale_in_steps_cases) (auto intro: none new_objects_same)
  then show ?thesis by (simp add: creates_within_def)
qed

section \<open>Properties\<close>

text \<open>
  C10: After \<open>createPods\<close>, whatever the API server answered, the controller expects exactly the
  creations that were acknowledged: the names of the new pods whose creation failed or was not
  attempted are taken back, those that succeeded stay pending, and no expectation of another
  controller or of a deletion changes.  It reports a modification exactly when some pod was created.
\<close>

theorem create_pods_expects_what_was_created:
  assumes "createPods M A num iu hash ids s = ((modified, err), s')"
    and "names = fset_of_list (map pod_name (newVersionedPods M iu hash (nat num) ids))"
    and "ok = fset_of_list (event_objects ''SuccessfulCreate'' (drop (length (events s)) (events s')))"
  shows "(modified \<longleftrightarrow> ok \<noteq> {||}) \<and> ok |\<subseteq>| names \<and>
    pending_names (scale_exps s') (GetControllerKey M iu) Create =
      (pending_names (scale_exps s) (GetControllerKey M iu) Create |-| names) |\<union>| ok \<and>
    (\<forall>k a. k = GetControllerKey M iu \<and> a = Create \<or>
       pending_names (scale_exps s') k a = pending_names (scale_exps s) k a)"
  using createPods_effect [OF assms(1) assms(2) assms(3)] by auto

theorem create_pods_expects_what_was_created_witness:
  "\<exists>s'. createPods sample_meta_lib sample_api 1 (sample_iu (Some 1) None) ''web-r1'' [''aaaaa''] sample_sys
      = ((True, None), s') \<and>
    pending_names (scale_exps s') (GetControllerKey sample_meta_lib (sample_iu (Some 1) None)) Create \<noteq> {||}"
proof -
  let ?run = "createPods sample_meta_lib sample_api 1 (sample_iu (Some 1) None) ''web-r1'' [''aaaaa''] sample_sys"
  have run: "?run = ((True, None), snd ?run)" by (rule pair_eq) code_simp
  from create_pods_expects_what_was_created [OF run refl refl]
  have "pending_names (scale_exps (snd ?run)) (GetControllerKey sample_meta_lib (sample_iu (Some 1) None)) Create
      \<noteq> {||}"
    by auto
  with run show ?thesis by blast
qed

text \<open>
  C21: When \<open>Scale\<close> scales up it creates at most \<open>scaleUpNum\<close> pods, named after instance ids that no
  existing pod carries.
\<close>

theorem scale_up_uses_fresh_ids:
  assumes "Scale L M A iu0 iu cur r pods s = Inr ((modified, err), s')"
    and "calculateDiffsWithExpectation L iu pods cur r = Inr d" and "0 < scaleUpNum d"
    and "made = event_objects ''SuccessfulCreate'' (drop (length (events s)) (events s'))"
  shows "int (length made) \<le> scaleUpNum d \<and>
    (\<exists>ids. ids |\<inter>| existing_ids pods = {||} \<and>
       set made \<subseteq> (\<lambda>iid. iu_name iu @ ''-'' @ iid) ` fset ids)"
  using assms(1)
proof (cases rule: Scale_cases)
  case no_replicas
  with assms(2) show ?thesis by (simp add: calculateDiffsWithExpectation_def)
next
  case (scale_in d')
  with assms(2,3) show ?thesis by simp
next
  case (scale_up d' ids w)
  then have d': "d' = d" using assms(2) by simp
  note fresh = getOrGenAvailableIDs_fresh [OF scale_up(3)]
  let ?new = "newVersionedPods M iu r (nat (scaleUpNum d)) (sorted_list_of_fset ids)"
  note effect = createPods_effect [OF scale_up(4) refl refl]
  have le: "int (length made) \<le> scaleUpNum d"
    using scale_up_made [OF scale_up(4,2)] by (simp add: assms(4) d' new_objects_def)
  have "set made \<subseteq> set (map pod_name ?new)"
    using effect(2) by (simp add: assms(4) d' less_eq_fset.rep_eq fset_of_list.rep_eq)
  also have "\<dots> \<subseteq> (\<lambda>iid. iu_name iu @ ''-'' @ iid) ` fset ids"
    unfolding names_of_new_pods by (auto dest: in_set_takeD)
  finally show ?thesis using le fresh by blast
qed

theorem scale_up_uses_fresh_ids_witness:
  "\<exists>ids. ids |\<inter>| existing_ids [] = {||} \<and> ''web-xxxxa'' \<in> (\<lambda>iid. ''web'' @ ''-'' @ iid) ` fset ids"
proof -
  let ?iu = "sample_iu (Some 1) (sample_rolling 1 1)"
  let ?run = "Scale sample_pod_lib sample_meta_lib sample_api ?iu ?iu ''web-r1'' ''web-r2'' [] sample_sys"
  let ?d = "calculateDiffsWithExpectation sample_pod_lib ?iu [] ''web-r1'' ''web-r2''"
  have run: "?run = Inr ((True, None), snd (projr ?run))"
    by (rule Inr_pair_eq) code_simp+
  have made: "event_objects ''SuccessfulCreate'' (events (snd (projr ?run))) = [''web-xxxxa'']"
    by code_simp
  have d: "?d = Inr (projr ?d)" by (rule Inr_eq) code_simp
  have up: "0 < scaleUpNum (projr ?d)" by code_simp
  have ev: "drop (length (events sample_sys)) xs = xs" for xs by (simp add: sample_sys_def)
  have name: "iu_name ?iu = ''web''" by (simp add: sample_iu_def)
  from scale_up_uses_fresh_ids [OF run d up refl, unfolded ev made name]
  show ?thesis by auto
qed

text \<open>
  \<open>Scale\<close> returns whenever the spec is complete and the random source, from every state, at
  some point draws an id that no existing pod has: the drawing loop is the only one that can go on
  for ever.
\<close>

theorem scale_returns:
  assumes "\<And>w. \<exists>n. draw (random_string A LengthOfInstanceID) n w |\<notin>| existing_ids pods"
    and "ds_rolling_update (sp_strategy (iu_spec iu)) = Some ru"
  shows "\<exists>r. Scale L M A iu0 iu cur hash pods s = Inr r"
proof (cases "sp_replicas (iu_spec iu)")
  case None
  then show ?thesis by (simp add: Scale_def del: split_paired_Ex)
next
  case (Some rs)
  obtain d where d: "calculateDiffsWithExpectation L iu pods cur hash = Inr d"
    using calculateDiffs_eq [OF Some assms(2)] by blast
  from gen_ids_returns [of "random_string A LengthOfInstanceID" "existing_ids pods", OF assms(1)]
  obtain ids w where "getOrGenAvailableIDs A (scaleUpNum d) pods (world s) = Some (ids, w)"
    unfolding getOrGenAvailableIDs_def by (metis surj_pair)
  with Some d show ?thesis
    by (simp add: Scale_def getPlannedDeletedPods_def Let_def GroupUpdateAndNotUpdatePods_filter
        del: split_paired_Ex)
qed

theorem scale_returns_witness:
  "\<exists>r. Scale sample_pod_lib sample_meta_lib sample_api (sample_iu (Some 1) (sample_rolling 1 1))
     (sample_iu (Some 1) (sample_rolling 1 1)) ''web-r1'' ''web-r2'' [updated_pod ''a'' PodRunning] sample_sys = Inr r"
proof (rule scale_returns)
  have "existing_ids [updated_pod ''a'' PodRunning] = {||}" by code_simp
  then show "\<exists>n. draw (random_string sample_api LengthOfInstanceID) n w
      |\<notin>| existing_ids [updated_pod ''a'' PodRunning]" for w
    by simp
qed (simp add: sample_iu_def sample_rolling_def)





text \<open>
  C3: As far as the pods counted as unavailable go, a call of \<open>Scale\<close> that does not scale up keeps
  \<open>maxUnavailable\<close>: with distinct pod names, the pods that are still there afterwards include at
  least as many available ones as before, or the desired replicas less \<open>maxUnavailable\<close>, less the
  pods that are neither available nor counted as unavailable (running pods that are not available
  yet and pods marked for deletion that do not run).
\<close>

theorem scale_keeps_pods_available:
  assumes "Scale L M A iu0 iu cur r pods s = Inr ((modified, err), s')"
    and "calculateDiffsWithExpectation L iu pods cur r = Inr d" and "scaleUpNum d \<le> 0"
    and "sort_contract (sort_pods L)" and "distinct (map pod_name pods)"
    and "sp_replicas (iu_spec iu) = Some rs" and "ds_rolling_update (sp_strategy (iu_spec iu)) = Some ru"
    and "gone = event_objects ''SuccessfulDelete'' (drop (length (events s)) (events s'))"
    and "available = IsPodAvailable L (fst (clock_now A (world s))) (sp_min_ready_seconds (iu_spec iu))"
    and "uncounted = int (length pods) - count_where available pods - unavailable_count pods"
  shows "min (count_where available pods) (sint rs - max_unavailable L ru (sint rs) - uncounted)
    \<le> count_where available (filter (\<lambda>p. pod_name p \<notin> set gone) pods)"
proof -
  from Scale_deletion_plan [OF assms(1-4,8)] obtain dn rest where gone: "gone = map pod_name dn"
    and plan: "deletion_plan L (fst (clock_now A (world s))) (sp_min_ready_seconds (iu_spec iu)) r pods d (dn @ rest)"
    by blast
  note bounds = deletion_plan_bounds [OF plan, folded assms(9)]
  have sub: "mset dn \<subseteq># mset pods"
    using bounds(1) by (metis mset_append mset_subset_eq_add_left subset_mset.order_trans)
  have "count_where available dn \<le> max 0 (deleteReadyLimit d)"
    using bounds(2) count_where_bounds(1) [of available rest] by simp
  moreover have "count_where available (filter (\<lambda>p. pod_name p \<notin> set gone) pods) =
      count_where available pods - count_where available dn"
    unfolding gone by (rule count_where_without [OF sub assms(5)])
  moreover have "deleteReadyLimit d \<le> max 0 (max_unavailable L ru (sint rs) + int (length pods) - sint rs
      - unavailable_count pods)"
    using assms(2) unfolding calculateDiffs_eq [OF assms(6,7)] diffs_of_counts_spec Let_def by auto
  ultimately show ?thesis unfolding assms(10) by linarith
qed

theorem scale_keeps_pods_available_witness:
  "1 \<le> count_where IsRunning (filter (\<lambda>p. pod_name p \<notin> {''c''})
     [updated_pod ''a'' PodRunning, updated_pod ''b'' PodRunning, marked_pod ''c'' PodRunning])"
proof -
  let ?pods = "[updated_pod ''a'' PodRunning, updated_pod ''b'' PodRunning, marked_pod ''c'' PodRunning]"
  let ?iu = "sample_iu (Some 2) (sample_rolling 1 0)"
  let ?ru = "\<lparr>ru_max_unavailable = Some (IntVal 1), ru_max_surge = Some (IntVal 0)\<rparr>"
  let ?run = "Scale sample_pod_lib sample_meta_lib sample_api ?iu ?iu ''web-r1'' ''web-r2'' ?pods sample_sys"
  let ?d = "calculateDiffsWithExpectation sample_pod_lib ?iu ?pods ''web-r1'' ''web-r2''"
  have run: "?run = Inr ((True, None), snd (projr ?run))"
    by (rule Inr_pair_eq) code_simp+
  have gone: "event_objects ''SuccessfulDelete'' (events (snd (projr ?run))) = [''c'']"
    by code_simp
  have d: "?d = Inr (projr ?d)" by (rule Inr_eq) code_simp
  have up: "scaleUpNum (projr ?d) \<le> 0" by code_simp
  have ev: "drop (length (events sample_sys)) xs = xs" for xs by (simp add: sample_sys_def)
  have names: "distinct (map pod_name ?pods)" by code_simp
  have spec: "sp_replicas (iu_spec ?iu) = Some 2" "ds_rolling_update (sp_strategy (iu_spec ?iu)) = Some ?ru"
    by (simp_all add: sample_iu_def sample_rolling_def)
  have avail: "IsPodAvailable sample_pod_lib now mrs = IsRunning" for now mrs
    by (simp add: IsPodAvailable_def IsRunning_def sample_pod_lib_def fun_eq_iff)
  have nums: "count_where IsRunning ?pods = 3" "unavailable_count ?pods = 0"
    "max_unavailable sample_pod_lib ?ru (sint (2 :: int32)) = 1"
    by code_simp+
  from scale_keeps_pods_available [OF run d up sample_pod_lib_sorts(1) names spec refl refl refl,
      unfolded ev gone avail nums]
  show ?thesis by simp
qed

text \<open>
  The pods that do not count can exceed \<open>maxUnavailable\<close>: two replicas, \<open>maxUnavailable\<close> 1, both
  pods marked for deletion, one of them not running.  \<open>Scale\<close> deletes the running one too and none
  is left.
\<close>

lemma scale_can_exceed_max_unavailable:
  "fst (projr (Scale sample_pod_lib sample_meta_lib sample_api (sample_iu (Some 2) (sample_rolling 1 0))
      (sample_iu (Some 2) (sample_rolling 1 0)) ''web-r1'' ''web-r2''
      [marked_pod ''a'' PodRunning, marked_pod ''b'' PodPending] sample_sys)) = (True, None)"
  "event_objects ''SuccessfulDelete'' (events (snd (projr
     (Scale sample_pod_lib sample_meta_lib sample_api (sample_iu (Some 2) (sample_rolling 1 0))
        (sample_iu (Some 2) (sample_rolling 1 0)) ''web-r1'' ''web-r2''
        [marked_pod ''a'' PodRunning, marked_pod ''b'' PodPending] sample_sys)))) = [''a'', ''b'']"
  by code_simp+

text \<open>
  C9: A call of \<open>Scale\<close> that modified anything leaves the scale expectations of the resource
  unsatisfied when the pods have distinct names: the next reconcile waits until the watch has
  reported what was created or deleted.
\<close>

theorem scale_modified_then_unsatisfied:
  assumes "Scale L M A iu0 iu cur r pods s = Inr ((True, err), s')"
    and "sort_contract (sort_pods L)" and "distinct (map pod_name pods)"
  shows "\<not> fst (fst (SatisfiedExpectations cf now now' (scale_exps s') (GetControllerKey M iu)))"
  using assms(1)
proof (cases rule: Scale_cases)
  case no_replicas
  then show ?thesis by simp
next
  case (scale_up d ids w)
  note effect = createPods_effect [OF scale_up(4) refl refl]
  have "pending_names (scale_exps s') (GetControllerKey M iu) Create \<noteq> {||}"
    using effect(1,4) by simp
  then show ?thesis unfolding SatisfiedExpectations_fst by blast
next
  case (scale_in d)
  have plan_case: ?thesis if del: "deletePods M A iu plan s1 = ((True, err), s')"
    and sub: "mset plan \<subseteq># mset pods" for plan s1
  proof -
    obtain dn rest where e: "plan = dn @ rest" "dn \<noteq> []"
      "pending_names (scale_exps s') (GetControllerKey M iu) Delete =
        (pending_names (scale_exps s1) (GetControllerKey M iu) Delete |\<union>| fset_of_list (map pod_name dn))
          |-| (if rest = [] then {||} else {|pod_name (hd rest)|})"
      by (rule deletePods_effect [OF del]) auto
    have "mset (map pod_name plan) \<subseteq># mset (map pod_name pods)"
      using sub by (simp add: image_mset_subseteq_mono)
    with assms(3) have "distinct (map pod_name plan)" by (rule distinct_mset_subset)
    then have "rest = [] \<or> pod_name (hd dn) \<noteq> pod_name (hd rest)"
      using e(1,2) by (cases dn; cases rest) auto
    then have "pod_name (hd dn) |\<in>| pending_names (scale_exps s') (GetControllerKey M iu) Delete"
      using e(2) unfolding e(3) by (cases dn) auto
    then show ?thesis unfolding SatisfiedExpectations_fst by fastforce
  qed
  show ?thesis
    using scale_in(3) refl [of "fst (clock_now A (world s))"]
  proof (cases rule: scale_in_steps_cases)
    case (specified s1)
    from plan_case [OF specified(3) mset_filter_subset [OF plan_msets(1) [OF assms(2)]]] show ?thesis .
  next
    case (scale_in s1)
    from plan_case [OF scale_in(4) mset_filter_subset [OF plan_msets(2) [OF assms(2)]]] show ?thesis .
  next
    case nothing
    then show ?thesis by simp
  qed
qed

theorem scale_modified_then_unsatisfied_witness:
  "\<exists>s'. Scale sample_pod_lib sample_meta_lib sample_api (sample_iu (Some 1) (sample_rolling 1 1))
     (sample_iu (Some 1) (sample_rolling 1 1)) ''web-r1'' ''web-r2''
     [updated_pod ''a'' PodRunning, marked_pod ''c'' PodPending] sample_sys = Inr ((True, None), s') \<and>
   \<not> fst (fst (SatisfiedExpectations True 0 0 (scale_exps s')
     (GetControllerKey sample_meta_lib (sample_iu (Some 1) (sample_rolling 1 1)))))"
proof -
  let ?iu = "sample_iu (Some 1) (sample_rolling 1 1)"
  let ?pods = "[updated_pod ''a'' PodRunning, marked_pod ''c'' PodPending]"
  let ?run = "Scale sample_pod_lib sample_meta_lib sample_api ?iu ?iu ''web-r1'' ''web-r2'' ?pods sample_sys"
  have run: "?run = Inr ((True, None), snd (projr ?run))"
    by (rule Inr_pair_eq) code_simp+
  have names: "distinct (map pod_name ?pods)" by code_simp
  from run scale_modified_then_unsatisfied [OF run sample_pod_lib_sorts(1) names, of True 0 0]
  show ?thesis by blast
qed

text \<open>
  \<open>choosePodsToDelete\<close> returns as many pods as it is asked for, all of them when there are
  fewer, and no pod it leaves behind comes before a chosen one in the order of
  \<open>ActivePodsWithRanks\<close> with the node ranks of the candidates.
\<close>

theorem choose_pods_to_delete_takes_first:
  assumes "sort_contract (sort_pods L)" and "0 \<le> diff"
    and "chosen = choosePodsToDelete L diff pods"
    and "lt = ActivePodsWithRanks_Less L (Some (GetRank (NewSameNodeRanker L pods))) (Some IsRunning)"
  shows "int (length chosen) = min diff (int (length pods)) \<and>
    (\<exists>left. mset chosen + mset left = mset pods \<and> list_all (\<lambda>p. list_all (\<lambda>q. \<not> lt q p) left) chosen)"
proof
  show "int (length chosen) = min diff (int (length pods))"
    unfolding assms(3) by (rule choosePodsToDelete_mset(2) [OF assms(1,2)])
  show "\<exists>left. mset chosen + mset left = mset pods \<and> list_all (\<lambda>p. list_all (\<lambda>q. \<not> lt q p) left) chosen"
  proof (cases "diff < int (length pods)")
    case True
    let ?s = "sort_pods L lt pods"
    have chosen: "chosen = take (nat diff) ?s"
      using True by (simp add: assms(3,4) choosePodsToDelete_def)
    have "list_all (\<lambda>p. list_all (\<lambda>q. \<not> lt q p) (drop (nat diff) ?s)) chosen"
      unfolding chosen list_all_iff assms(4)
      using pod_order.sorted_front_minimal [OF assms(1)] by blast
    moreover have "mset chosen + mset (drop (nat diff) ?s) = mset pods"
      unfolding chosen mset_take_drop by (rule sort_contract_mset [OF assms(1)])
    ultimately show ?thesis by blast
  next
    case False
    then have "chosen = pods" by (auto simp: assms(3) choosePodsToDelete_def)
    then show ?thesis by (intro exI [of _ "[]"]) (simp add: list_all_iff)
  qed
qed

theorem choose_pods_to_delete_takes_first_witness:
  "int (length (choosePodsToDelete sample_pod_lib 1
     [sample_pod ''a'' PodRunning None, sample_pod ''b'' PodPending None])) = 1"
  using choose_pods_to_delete_takes_first [OF sample_pod_lib_sorts(1), of 1 _ "[sample_pod ''a'' PodRunning None,
      sample_pod ''b'' PodPending None]", OF _ refl refl]
  by simp

end
