(* ===== verification/Inplace_Update.thy ===== *)
theory Inplace_Update
  imports Cluster Revision_Hash Sample_Cluster
begin

text \<open>
  \<open>internal/inplace_update/inplace_update.go\<close>: whether a pod of one revision can be turned into a pod
  of another in place (\<open>CalculateSpec\<close>), and the write that does it (\<open>Update\<close>), through the
  runtime-client adapter of \<open>internal/utils/podadapter/pod_adapter.go\<close>, which is the one the
  controller uses.
\<close>

section \<open>Data\<close>

definition InPlaceUpdateStateKey :: string where
  "InPlaceUpdateStateKey = ''batch.inplace.kubebuilder.io/inplace-update-state''"

text \<open>A JSON patch operation; the code only asks whether the value is a string.\<close>

datatype patch_value = StringValue string | OtherValue

record patch_op =
  op_operation :: string
  op_path :: string
  op_value :: patch_value

type_synonym 'a by_name = "(string \<times> 'a) list"

record object_meta =
  om_labels :: "string by_name"
  om_annotations :: "string by_name"

record update_spec =
  us_revision :: string
  us_container_images :: "string by_name"
  us_container_ref_metadata :: "object_meta by_name"
  us_container_resources :: "string by_name"
  us_metadata_patch :: "string option"
  us_update_env_from_metadata :: bool

record inplace_update_state =
  ius_revision :: string
  ius_update_timestamp :: time
  ius_last_container_statuses :: "string by_name option"
  ius_update_env_from_metadata :: bool
  ius_update_resources :: bool
  ius_update_images :: bool
  ius_next_container_images :: "string by_name"
  ius_next_container_ref_metadata :: "object_meta by_name"
  ius_next_container_resources :: "string by_name"
  ius_precheck_before_next :: "string list option"
  ius_container_batches_record :: "(time \<times> string list) list"

record update_result =
  ur_in_place_update :: bool
  ur_update_err :: "go_error option"
  ur_delay_duration :: duration
  ur_new_resource_version :: string

text \<open>
  The encoders and patch functions the code calls:
  \<^item> \<open>create_patch\<close>: \<open>jsonpatch.CreatePatch\<close> on two encoded revisions;
  \<^item> \<open>unmarshal_template\<close>: \<open>json.Unmarshal\<close> of the encoded revision, with \<open>None\<close> for the JSON
    document \<open>null\<close>, which leaves the pointer \<open>nil\<close>;
  \<^item> \<open>two_way_merge_patch\<close>: \<open>strategicpatch.CreateTwoWayMergePatch\<close> on the metadata of two templates;
  \<^item> \<open>strategic_merge_pod\<close>: \<open>strategicpatch.StrategicMergePatch\<close> on the encoded pod, and decoding;
  \<^item> \<open>marshal_state\<close>: \<open>json.Marshal\<close> of the state annotation.
\<close>

record patch_lib =
  create_patch :: "string \<Rightarrow> string \<Rightarrow> go_error + patch_op list"
  unmarshal_template :: "string \<Rightarrow> go_error + pod_template option"
  two_way_merge_patch :: "pod_template \<Rightarrow> pod_template \<Rightarrow> go_error + string"
  strategic_merge_pod :: "pod \<Rightarrow> string \<Rightarrow> go_error + pod"
  marshal_state :: "inplace_update_state \<Rightarrow> string"

section \<open>Calculating the update\<close>

definition GetTemplateFromRevision :: "patch_lib \<Rightarrow> revision \<Rightarrow> (go_error + pod_template) may_panic" where
  "GetTemplateFromRevision P rv =
     (case unmarshal_template P (rev_data rv) of
        Inl e \<Rightarrow> Inr (Inl e)
      | Inr patchObj \<Rightarrow> bindP (deref patchObj) (\<lambda>t. Inr (Inr t)))"

text \<open>The regular expression \<open>^/spec/containers/([0-9]+)/image$\<close>, and the index it captures.\<close>

definition containerImagePatchRexp :: "string \<Rightarrow> bool" where
  "containerImagePatchRexp path =
     (case split_on (CHR ''/'') path of
        [a, b, c, digits, d] \<Rightarrow>
          a = [] \<and> b = ''spec'' \<and> c = ''containers'' \<and> d = ''image'' \<and>
          digits \<noteq> [] \<and> list_all is_digit digits
      | _ \<Rightarrow> False)"

definition patched_container :: "string \<Rightarrow> nat" where
  "patched_container path = atoi_digits (split_on (CHR ''/'') path ! 3)"

text \<open>What one operation does in the loop: ends it, is put aside, or sets an image.\<close>

definition strip_template :: "patch_op \<Rightarrow> patch_op" where
  "strip_template op = op\<lparr>op_path := replace_first (op_path op) ''/spec/template'' []\<rparr>"

fun calculate_ops :: "pod_template \<Rightarrow> patch_op list \<Rightarrow> string by_name \<times> patch_op list \<Rightarrow>
    (string by_name \<times> patch_op list) option may_panic" where
  "calculate_ops oldTemp [] acc = Inr (Some acc)"
| "calculate_ops oldTemp (op # ops) (images, metadataPatches) =
     (let op = strip_template op
      in if \<not> has_prefix (op_path op) ''/spec/''
         then if has_prefix (op_path op) ''/metadata/''
              then calculate_ops oldTemp ops (images, metadataPatches @ [op])
              else Inr None
         else if op_operation op \<noteq> ''replace'' then Inr None
         else if containerImagePatchRexp (op_path op)
         then let idx = patched_container (op_path op)
              in if length (tpl_containers oldTemp) \<le> idx then Inr None
                 else case op_value op of
                        OtherValue \<Rightarrow> Inl FailedTypeAssertion
                      | StringValue v \<Rightarrow>
                          calculate_ops oldTemp ops
                            (AList.update (ct_name (tpl_containers oldTemp ! idx)) v images, metadataPatches)
         else Inr None)"

definition CalculateSpec ::
  "patch_lib \<Rightarrow> revision option \<Rightarrow> revision option \<Rightarrow> update_spec option may_panic" where
  "CalculateSpec P oldRevision newRevision =
     (case (oldRevision, newRevision) of
        (Some old, Some new) \<Rightarrow>
          (case create_patch P (rev_data old) (rev_data new) of
             Inl _ \<Rightarrow> Inr None
           | Inr patches \<Rightarrow>
               bindP (GetTemplateFromRevision P old) (\<lambda>oldTemp. case oldTemp of
                 Inl _ \<Rightarrow> Inr None
               | Inr oldTemp \<Rightarrow>
               bindP (GetTemplateFromRevision P new) (\<lambda>newTemp. case newTemp of
                 Inl _ \<Rightarrow> Inr None
               | Inr newTemp \<Rightarrow>
               bindP (calculate_ops oldTemp patches ([], [])) (\<lambda>acc. case acc of
                 None \<Rightarrow> Inr None
               | Some (images, metadataPatches) \<Rightarrow>
                   (let updateSpec =
                      \<lparr>us_revision = rev_name new, us_container_images = images,
                       us_container_ref_metadata = [], us_container_resources = [],
                       us_metadata_patch = None, us_update_env_from_metadata = False\<rparr>
                    in if length metadataPatches > 0
                       then case two_way_merge_patch P oldTemp newTemp of
                              Inl _ \<Rightarrow> Inr None
                            | Inr patchBytes \<Rightarrow>
                                Inr (Some (updateSpec\<lparr>us_metadata_patch := Some patchBytes\<rparr>))
                       else Inr (Some updateSpec))))))
      | _ \<Rightarrow> Inr None)"

definition CanUpdateInPlace ::
  "patch_lib \<Rightarrow> revision option \<Rightarrow> revision option \<Rightarrow> bool may_panic" where
  "CanUpdateInPlace P oldRevision newRevision =
     bindP (CalculateSpec P oldRevision newRevision) (\<lambda>spec. Inr (spec \<noteq> None))"

section \<open>Patching the pod\<close>

definition containers_to_update :: "update_spec \<Rightarrow> container list \<Rightarrow> string fset" where
  "containers_to_update spec cs =
     foldl (\<lambda>names c.
        let existImage = map_of (us_container_images spec) (ct_name c) \<noteq> None;
            existMetadata = map_of (us_container_ref_metadata spec) (ct_name c) \<noteq> None;
            existResource = map_of (us_container_resources spec) (ct_name c) \<noteq> None
        in if \<not> existImage \<and> \<not> existMetadata \<and> \<not> existResource then names
           else finsert (ct_name c) names) {||} cs"

text \<open>
  The loop over the containers that sets their images: the containers, the names whose image was
  set, and the images left for a next batch.
\<close>

fun update_images :: "string by_name \<Rightarrow> string fset \<Rightarrow> container list \<Rightarrow> string fset \<Rightarrow> string by_name \<Rightarrow>
    container list \<times> string fset \<times> string by_name" where
  "update_images images toUpdate [] changed next_images = ([], changed, next_images)"
| "update_images images toUpdate (c # cs) changed next_images =
     (case map_of images (ct_name c) of
        None \<Rightarrow>
          (case update_images images toUpdate cs changed next_images of
             (cs', r) \<Rightarrow> (c # cs', r))
      | Some newImage \<Rightarrow>
          (if ct_name c |\<in>| toUpdate
           then case update_images images toUpdate cs (finsert (ct_name c) changed) next_images of
                  (cs', r) \<Rightarrow> (c\<lparr>ct_image := newImage\<rparr> # cs', r)
           else case update_images images toUpdate cs changed
                       (AList.update (ct_name c) newImage next_images) of
                  (cs', r) \<Rightarrow> (c # cs', r)))"

text \<open>The second branch of the code changes a copy only.\<close>

definition record_statuses ::
  "string fset \<Rightarrow> container_status list \<Rightarrow> string by_name option \<Rightarrow> string by_name option" where
  "record_statuses changed statuses lastStatuses =
     foldl (\<lambda>m c. if cs_name c |\<in>| changed
                  then let m' = (case m of None \<Rightarrow> [] | Some m' \<Rightarrow> m')
                       in if map_of m' (cs_name c) = None
                          then Some (AList.update (cs_name c) (cs_image_id c) m') else Some m'
                  else m) lastStatuses statuses"

definition put_all :: "string by_name \<Rightarrow> str_map \<Rightarrow> str_map" where
  "put_all kvs m = foldl (\<lambda>m (k, v). map_put m k v) m kvs"

text \<open>Go visits the containers with metadata in any order; the list is the order of one visit.\<close>

definition update_ref_metadata ::
  "object_meta by_name \<Rightarrow> string fset \<Rightarrow> pod \<Rightarrow> object_meta by_name \<Rightarrow> pod \<times> object_meta by_name" where
  "update_ref_metadata metas toUpdate p next_metas =
     foldl (\<lambda>(p, next_metas) (cName, objMeta).
        if cName |\<in>| toUpdate
        then (p\<lparr>pod_labels := put_all (om_labels objMeta) (pod_labels p),
                pod_annotations := put_all (om_annotations objMeta) (pod_annotations p)\<rparr>, next_metas)
        else (p, AList.update cName objMeta next_metas)) (p, next_metas) metas"

definition patch_pod_and_state ::
  "patch_lib \<Rightarrow> update_spec \<Rightarrow> pod \<Rightarrow> inplace_update_state \<Rightarrow> time \<Rightarrow> pod" where
  "patch_pod_and_state P spec p state now =
     (let p = p\<lparr>pod_labels := ensure_map (pod_labels p), pod_annotations := ensure_map (pod_annotations p)\<rparr>;
          toUpdate = containers_to_update spec (pod_containers p);
          (cs, changed, nextImages) =
            update_images (us_container_images spec) toUpdate (pod_containers p) {||} [];
          p = p\<lparr>pod_containers := cs\<rparr>;
          lastStatuses = record_statuses changed (pod_container_statuses p) (ius_last_container_statuses state);
          (p, nextMetas) = update_ref_metadata (us_container_ref_metadata spec) toUpdate p [];
          nextResources = ([] :: string by_name);
          precheck = (if length nextImages > 0 \<or> length nextMetas > 0 \<or> length nextResources > 0
                      then Some (sorted_list_of_fset toUpdate) else None);
          state = state\<lparr>ius_next_container_images := nextImages,
                        ius_next_container_ref_metadata := nextMetas,
                        ius_next_container_resources := nextResources,
                        ius_last_container_statuses := lastStatuses,
                        ius_precheck_before_next := precheck,
                        ius_container_batches_record := ius_container_batches_record state @
                          [(now, sorted_list_of_fset toUpdate)]\<rparr>
      in p\<lparr>pod_annotations := map_put (pod_annotations p) InPlaceUpdateStateKey (marshal_state P state)\<rparr>)"

definition defaultPatchUpdateSpecToPod ::
  "'w api \<Rightarrow> patch_lib \<Rightarrow> pod \<Rightarrow> update_spec \<Rightarrow> inplace_update_state \<Rightarrow> 'w \<Rightarrow> (go_error + pod) \<times> 'w" where
  "defaultPatchUpdateSpecToPod A P p spec state w =
     (case (case us_metadata_patch spec of
              None \<Rightarrow> Inr p
            | Some patch \<Rightarrow> strategic_merge_pod P p patch) of
        Inl e \<Rightarrow> (Inl e, w)
      | Inr p \<Rightarrow> (case clock_now A w of (now, w) \<Rightarrow> (Inr (patch_pod_and_state P spec p state now), w)))"

section \<open>Writing the pod\<close>

text \<open>\<open>AdapterRuntimeClient\<close>: reads go to the client, an update returns the object it was given.\<close>

definition Adapter_GetPod :: "'w api \<Rightarrow> string \<Rightarrow> string \<Rightarrow> 'w \<Rightarrow> (go_error + pod) \<times> 'w" where
  "Adapter_GetPod A ns name w = get_pod A ns name w"

definition Adapter_UpdatePod :: "'w api \<Rightarrow> pod \<Rightarrow> 'w \<Rightarrow> (go_error + pod) \<times> 'w" where
  "Adapter_UpdatePod A p w = update_pod A p w"

definition new_update_state :: "update_spec \<Rightarrow> time \<Rightarrow> inplace_update_state" where
  "new_update_state spec now =
     \<lparr>ius_revision = us_revision spec, ius_update_timestamp = now,
      ius_last_container_statuses = None,
      ius_update_env_from_metadata = us_update_env_from_metadata spec,
      ius_update_resources = (length (us_container_resources spec) > 0),
      ius_update_images = (length (us_container_images spec) > 0),
      ius_next_container_images = [], ius_next_container_ref_metadata = [],
      ius_next_container_resources = [], ius_precheck_before_next = None,
      ius_container_batches_record = []\<rparr>"

text \<open>
  The closure given to \<open>RetryOnConflict\<close>; the variable it shares with its caller is the new
  resource version.
\<close>

definition update_attempt :: "'w api \<Rightarrow> patch_lib \<Rightarrow> pod \<Rightarrow> update_spec \<Rightarrow> (string \<times> 'w) attempt" where
  "update_attempt A P pod0 spec = (\<lambda>(newResourceVersion, w).
     case Adapter_GetPod A (pod_namespace pod0) (pod_name pod0) w of
       (Inl e, w) \<Rightarrow> (Some e, (newResourceVersion, w))
     | (Inr clone, w) \<Rightarrow>
         (let clone = clone\<lparr>pod_labels := WriteRevisionHash (pod_labels clone) (us_revision spec)\<rparr>;
              clone = clone\<lparr>pod_annotations := ensure_map (pod_annotations clone)\<rparr>
          in case clock_now A w of
               (now, w) \<Rightarrow>
                 (let state = new_update_state spec now;
                      clone = clone\<lparr>pod_annotations :=
                        map_put (pod_annotations clone) InPlaceUpdateStateKey (marshal_state P state)\<rparr>
                  in case defaultPatchUpdateSpecToPod A P clone spec state w of
                       (Inl e, w) \<Rightarrow> (Some e, (newResourceVersion, w))
                     | (Inr clone, w) \<Rightarrow>
                         (case Adapter_UpdatePod A clone w of
                            (Inl e, w) \<Rightarrow> (Some e, (newResourceVersion, w))
                          | (Inr newPod, w) \<Rightarrow> (None, (pod_rv newPod, w))))))"

definition updatePodInPlace ::
  "'w api \<Rightarrow> patch_lib \<Rightarrow> ((string \<times> 'w) attempt \<Rightarrow> (string \<times> 'w) attempt) \<Rightarrow> pod \<Rightarrow> update_spec \<Rightarrow> 'w \<Rightarrow>
     (string \<times> go_error option) \<times> 'w" where
  "updatePodInPlace A P retry p spec w =
     (case retry (update_attempt A P p spec) ([], w) of
        (err, (newResourceVersion, w)) \<Rightarrow> ((newResourceVersion, err), w))"

definition no_update :: update_result where
  "no_update = \<lparr>ur_in_place_update = False, ur_update_err = None, ur_delay_duration = 0,
     ur_new_resource_version = []\<rparr>"

definition Inplace_Update ::
  "'w api \<Rightarrow> patch_lib \<Rightarrow> ((string \<times> 'w) attempt \<Rightarrow> (string \<times> 'w) attempt) \<Rightarrow> pod \<Rightarrow>
     revision option \<Rightarrow> revision option \<Rightarrow> 'w \<Rightarrow> (update_result \<times> 'w) may_panic" where
  "Inplace_Update A P retry p oldRevision newRevision w =
     bindP (CalculateSpec P oldRevision newRevision) (\<lambda>spec. case spec of
       None \<Rightarrow> Inr (no_update, w)
     | Some spec \<Rightarrow>
         (case updatePodInPlace A P retry p spec w of
            ((newResourceVersion, Some err), w) \<Rightarrow>
              Inr (no_update\<lparr>ur_in_place_update := True, ur_update_err := Some err\<rparr>, w)
          | ((newResourceVersion, None), w) \<Rightarrow>
              Inr (no_update\<lparr>ur_in_place_update := True,
                ur_new_resource_version := newResourceVersion\<rparr>, w)))"

section \<open>Lemmas\<close>

subsection \<open>Which operations are accepted\<close>

definition metadata_op :: "patch_op \<Rightarrow> bool" where
  "metadata_op op = (let path = op_path (strip_template op)
     in \<not> has_prefix path ''/spec/'' \<and> has_prefix path ''/metadata/'')"

definition image_path_op :: "pod_template \<Rightarrow> patch_op \<Rightarrow> bool" where
  "image_path_op t op = (let path = op_path (strip_template op)
     in has_prefix path ''/spec/'' \<and> op_operation op = ''replace'' \<and> containerImagePatchRexp path \<and>
        patched_container path < length (tpl_containers t))"

definition image_op :: "pod_template \<Rightarrow> patch_op \<Rightarrow> bool" where
  "image_op t op = (image_path_op t op \<and> op_value op \<noteq> OtherValue)"

definition op_index :: "patch_op \<Rightarrow> nat" where
  "op_index op = patched_container (op_path (strip_template op))"

definition op_image :: "patch_op \<Rightarrow> string" where
  "op_image op = (case op_value op of StringValue v \<Rightarrow> v | OtherValue \<Rightarrow> [])"

definition set_images :: "pod_template \<Rightarrow> patch_op list \<Rightarrow> string by_name \<Rightarrow> string by_name" where
  "set_images t ops images =
     foldl (\<lambda>m op. AList.update (ct_name (tpl_containers t ! op_index op)) (op_image op) m) images ops"

lemma strip_template_fields [simp]:
  "op_operation (strip_template op) = op_operation op"
  "op_value (strip_template op) = op_value op"
  by (simp_all add: strip_template_def)

lemmas op_kinds = metadata_op_def image_op_def image_path_op_def op_index_def op_image_def

lemma calculate_ops_step:
  "calculate_ops t (op # ops) (images, metas) =
     (if metadata_op op then calculate_ops t ops (images, metas @ [strip_template op])
      else if image_op t op
      then calculate_ops t ops
             (AList.update (ct_name (tpl_containers t ! op_index op)) (op_image op) images, metas)
      else if image_path_op t op then Inl FailedTypeAssertion
      else Inr None)"
  by (auto simp: op_kinds Let_def split: patch_value.split)

declare calculate_ops.simps(2) [simp del]

lemma metadata_not_image: "metadata_op op \<Longrightarrow> \<not> image_path_op t op"
  by (auto simp: op_kinds Let_def)

lemma calculate_ops_eq:
  "calculate_ops t ops (images, metas) =
     (case find (\<lambda>op. \<not> metadata_op op \<and> \<not> image_op t op) ops of
        None \<Rightarrow> Inr (Some (set_images t (filter (image_op t) ops) images,
                          metas @ map strip_template (filter metadata_op ops)))
      | Some op \<Rightarrow> if image_path_op t op then Inl FailedTypeAssertion else Inr None)"
proof (induction ops arbitrary: images metas)
  case Nil
  then show ?case by (simp add: set_images_def)
next
  case (Cons op ops)
  consider (metadata) "metadata_op op" | (image) "\<not> metadata_op op" "image_op t op"
    | (other) "\<not> metadata_op op" "\<not> image_op t op"
    by blast
  then show ?case
  proof cases
    case metadata
    then have "\<not> image_op t op" using metadata_not_image by (auto simp: image_op_def)
    with metadata Cons show ?thesis by (simp add: calculate_ops_step split: option.splits)
  next
    case image
    with Cons show ?thesis by (simp add: calculate_ops_step set_images_def split: option.splits)
  next
    case other
    then show ?thesis by (simp add: calculate_ops_step)
  qed
qed

subsection \<open>Images by name and by index\<close>

definition with_image :: "string by_name \<Rightarrow> container \<Rightarrow> container" where
  "with_image images c =
     (case map_of images (ct_name c) of None \<Rightarrow> c | Some v \<Rightarrow> c\<lparr>ct_image := v\<rparr>)"

lemma with_image_name [simp]: "ct_name (with_image images c) = ct_name c"
  by (simp add: with_image_def split: option.splits)

definition replace_image :: "container list \<Rightarrow> patch_op \<Rightarrow> container list" where
  "replace_image cs op = cs[op_index op := (cs ! op_index op)\<lparr>ct_image := op_image op\<rparr>]"

lemma with_image_update:
  "with_image (AList.update n v images) c =
     (if ct_name c = n then c\<lparr>ct_image := v\<rparr> else with_image images c)"
  by (simp add: with_image_def update_conv')

lemma map_with_image_update:
  assumes "distinct (map ct_name cs)" and "i < length cs"
  shows "map (with_image (AList.update (ct_name (cs ! i)) v images)) cs =
    (map (with_image images) cs)[i := (map (with_image images) cs ! i)\<lparr>ct_image := v\<rparr>]"
proof (rule nth_equalityI)
  show "length (map (with_image (AList.update (ct_name (cs ! i)) v images)) cs) =
    length ((map (with_image images) cs)[i := (map (with_image images) cs ! i)\<lparr>ct_image := v\<rparr>])"
    by simp
next
  fix j
  assume "j < length (map (with_image (AList.update (ct_name (cs ! i)) v images)) cs)"
  then have j: "j < length cs" by simp
  have names: "ct_name (cs ! j) = ct_name (cs ! i) \<longleftrightarrow> j = i"
    using assms j nth_eq_iff_index_eq [OF assms(1), of j i] by simp
  have over: "(with_image images c)\<lparr>ct_image := v\<rparr> = c\<lparr>ct_image := v\<rparr>" for c
    by (simp add: with_image_def split: option.splits)
  show "map (with_image (AList.update (ct_name (cs ! i)) v images)) cs ! j =
    (map (with_image images) cs)[i := (map (with_image images) cs ! i)\<lparr>ct_image := v\<rparr>] ! j"
    using names assms(2) j by (simp add: with_image_update over nth_list_update)
qed

lemma set_images_by_index:
  assumes "distinct (map ct_name cs)" and "map ct_name cs = map ct_name (tpl_containers t)"
    and "list_all (\<lambda>op. op_index op < length cs) ops"
  shows "map (with_image (set_images t ops images)) cs =
    foldl replace_image (map (with_image images) cs) ops"
  using assms(3)
proof (induction ops arbitrary: images)
  case Nil
  then show ?case by (simp add: set_images_def)
next
  case (Cons op ops)
  have i: "op_index op < length cs" using Cons.prems by simp
  have name: "ct_name (tpl_containers t ! op_index op) = ct_name (cs ! op_index op)"
    using i assms(2) by (metis length_map nth_map)
  have "map (with_image (set_images t (op # ops) images)) cs =
      map (with_image (set_images t ops
        (AList.update (ct_name (cs ! op_index op)) (op_image op) images))) cs"
    by (simp add: set_images_def name)
  also have "\<dots> = foldl replace_image
      (map (with_image (AList.update (ct_name (cs ! op_index op)) (op_image op) images)) cs) ops"
    by (rule Cons.IH) (use Cons.prems in simp)
  also have "\<dots> = foldl replace_image (map (with_image images) cs) (op # ops)"
    by (simp add: map_with_image_update [OF assms(1) i] replace_image_def)
  finally show ?case .
qed

subsection \<open>The patched pod\<close>

lemma containers_to_update_mem:
  "n |\<in>| containers_to_update spec cs \<longleftrightarrow>
     n \<in> ct_name ` set cs \<and> (map_of (us_container_images spec) n \<noteq> None \<or>
       map_of (us_container_ref_metadata spec) n \<noteq> None \<or> map_of (us_container_resources spec) n \<noteq> None)"
proof -
  let ?in = "\<lambda>n. map_of (us_container_images spec) n \<noteq> None \<or>
       map_of (us_container_ref_metadata spec) n \<noteq> None \<or> map_of (us_container_resources spec) n \<noteq> None"
  have "n |\<in>| foldl (\<lambda>names c.
        let existImage = map_of (us_container_images spec) (ct_name c) \<noteq> None;
            existMetadata = map_of (us_container_ref_metadata spec) (ct_name c) \<noteq> None;
            existResource = map_of (us_container_resources spec) (ct_name c) \<noteq> None
        in if \<not> existImage \<and> \<not> existMetadata \<and> \<not> existResource then names
           else finsert (ct_name c) names) base cs \<longleftrightarrow> n |\<in>| base \<or> n \<in> ct_name ` set cs \<and> ?in n" for base
    by (induction cs arbitrary: base) (auto simp: Let_def)
  then show ?thesis by (simp add: containers_to_update_def)
qed

lemma update_images_eq:
  assumes "\<And>c. c \<in> set cs \<Longrightarrow> map_of images (ct_name c) \<noteq> None \<Longrightarrow> ct_name c |\<in>| toUpdate"
  shows "fst (update_images images toUpdate cs changed next_images) = map (with_image images) cs"
    and "snd (snd (update_images images toUpdate cs changed next_images)) = next_images"
  using assms
proof (induction cs arbitrary: changed)
  case Nil
  {
    case 1
    then show ?case by simp
  next
    case 2
    then show ?case by simp
  }
next
  case (Cons c cs)
  {
    case 1
    then show ?case
      using Cons.IH(1) [of "finsert (ct_name c) changed"] Cons.IH(1) [of changed]
      by (cases "map_of images (ct_name c)") (auto simp: with_image_def split: prod.splits)
  next
    case 2
    then show ?case
      using Cons.IH(2) [of "finsert (ct_name c) changed"] Cons.IH(2) [of changed]
      by (cases "map_of images (ct_name c)") (auto split: prod.splits)
  }
qed

text \<open>What a spec made by \<open>CalculateSpec\<close> does to a pod.\<close>

definition image_spec :: "update_spec \<Rightarrow> bool" where
  "image_spec spec \<longleftrightarrow> us_container_ref_metadata spec = [] \<and> us_container_resources spec = []"

lemma patch_pod_and_state_eq:
  assumes "image_spec spec"
  shows "\<exists>state'. patch_pod_and_state P spec p state now =
    p\<lparr>pod_labels := ensure_map (pod_labels p),
      pod_containers := map (with_image (us_container_images spec)) (pod_containers p),
      pod_annotations := map_put (pod_annotations p) InPlaceUpdateStateKey (marshal_state P state')\<rparr>"
proof -
  let ?cs = "pod_containers p"
  let ?up = "update_images (us_container_images spec) (containers_to_update spec ?cs) ?cs {||} []"
  have names: "c \<in> set ?cs \<Longrightarrow> map_of (us_container_images spec) (ct_name c) \<noteq> None \<Longrightarrow>
      ct_name c |\<in>| containers_to_update spec ?cs" for c
    by (simp add: containers_to_update_mem)
  have up: "?up = (map (with_image (us_container_images spec)) ?cs, fst (snd ?up), [])"
    using update_images_eq [of ?cs "us_container_images spec" "containers_to_update spec ?cs", OF names]
    by (metis prod.collapse)
  have put: "map_put (ensure_map m) k v = map_put m k v" for m k v
    by (cases m) (simp_all add: map_put_def ensure_map_def)
  show ?thesis
    using assms up
    by (auto simp: patch_pod_and_state_def image_spec_def update_ref_metadata_def Let_def put
        intro: exI split: prod.splits)
qed

lemma CalculateSpec_image_spec:
  assumes "CalculateSpec P oldR newR = Inr (Some spec)"
  shows "image_spec spec \<and> (\<exists>new. newR = Some new \<and> us_revision spec = rev_name new)"
  using assms
  unfolding CalculateSpec_def bindP_def image_spec_def Let_def
  by (auto split: option.split_asm sum.split_asm if_split_asm prod.split_asm)

lemma GetTemplateFromRevision_simp:
  "unmarshal_template P (rev_data rv) = Inr (Some t) \<Longrightarrow> GetTemplateFromRevision P rv = Inr (Inr t)"
  by (simp add: GetTemplateFromRevision_def)

lemma calculate_spec_accepts:
  assumes "create_patch P (rev_data old) (rev_data new) = Inr ops"
    and "unmarshal_template P (rev_data old) = Inr (Some t)"
    and "unmarshal_template P (rev_data new) = Inr (Some t')"
    and "spec = \<lparr>us_revision = rev_name new,
      us_container_images = set_images t (filter (image_op t) ops) [],
      us_container_ref_metadata = [], us_container_resources = [],
      us_metadata_patch = None, us_update_env_from_metadata = False\<rparr>"
  shows "CalculateSpec P (Some old) (Some new) =
    (case find (\<lambda>op. \<not> metadata_op op \<and> \<not> image_op t op) ops of
       Some op \<Rightarrow> if image_path_op t op then Inl FailedTypeAssertion else Inr None
     | None \<Rightarrow>
         if list_ex metadata_op ops
         then case two_way_merge_patch P t t' of
                Inl e \<Rightarrow> Inr None
              | Inr patch \<Rightarrow> Inr (Some (spec\<lparr>us_metadata_patch := Some patch\<rparr>))
         else Inr (Some spec))"
proof -
  have metas: "length (map strip_template (filter metadata_op ops)) > 0 \<longleftrightarrow> list_ex metadata_op ops"
    by (auto simp: filter_empty_conv list_ex_iff)
  note rules = CalculateSpec_def assms(1,4) GetTemplateFromRevision_simp [OF assms(2)]
    GetTemplateFromRevision_simp [OF assms(3)] calculate_ops_eq Let_def
  show ?thesis
  proof (cases "find (\<lambda>op. \<not> metadata_op op \<and> \<not> image_op t op) ops")
    case None
    then show ?thesis using metas by (cases "two_way_merge_patch P t t'") (auto simp: rules)
  next
    case (Some op)
    then show ?thesis by (simp add: rules)
  qed
qed

section \<open>The interface of the update control\<close>

text \<open>
  \<open>inplaceupdate.Interface\<close>: the answer of \<open>CanUpdateInPlace\<close> and the result of \<open>Update\<close> agree,
  and an update that is not in place changes nothing.
\<close>

locale inplace_control =
  fixes can :: "revision option \<Rightarrow> revision option \<Rightarrow> bool may_panic"
    and upd :: "pod \<Rightarrow> revision option \<Rightarrow> revision option \<Rightarrow> 'w \<Rightarrow> (update_result \<times> 'w) may_panic"
  assumes can_of_upd: "upd p r n w = Inr (res, w') \<Longrightarrow> can r n = Inr (ur_in_place_update res)"
    and upd_of_can: "can r n = Inr b \<Longrightarrow> \<exists>res w'. upd p r n w = Inr (res, w')"
    and upd_refused: "upd p r n w = Inr (res, w') \<Longrightarrow> \<not> ur_in_place_update res \<Longrightarrow> res = no_update \<and> w' = w"
    and upd_delay: "upd p r n w = Inr (res, w') \<Longrightarrow> ur_delay_duration res = 0"
begin

lemma upd_when_can:
  assumes "can r n = Inr True"
  obtains res w' where "upd p r n w = Inr (res, w')" "ur_in_place_update res" "ur_delay_duration res = 0"
proof -
  from upd_of_can [OF assms] obtain res w' where u: "upd p r n w = Inr (res, w')" by blast
  moreover have "ur_in_place_update res" using can_of_upd [OF u] assms by simp
  moreover have "ur_delay_duration res = 0" using upd_delay [OF u] .
  ultimately show thesis by (rule that)
qed

lemma upd_never_in_place_when_refused:
  "can r n = Inr False \<Longrightarrow> upd p r n w = Inr (res, w') \<Longrightarrow> res = no_update \<and> w' = w"
  using can_of_upd upd_refused by fastforce

end

lemma Inplace_Update_eq:
  "Inplace_Update A P retry p r n w =
     bindP (CalculateSpec P r n) (\<lambda>spec. case spec of
       None \<Rightarrow> Inr (no_update, w)
     | Some spec \<Rightarrow>
         (case updatePodInPlace A P retry p spec w of
            ((rv, err), w) \<Rightarrow>
              Inr (no_update\<lparr>ur_in_place_update := True, ur_update_err := err,
                ur_new_resource_version := (if err = None then rv else [])\<rparr>, w)))"
  unfolding Inplace_Update_def
  by (intro arg_cong [where f = "bindP (CalculateSpec P r n)"] ext)
    (auto simp: no_update_def split: option.splits prod.splits)

interpretation inplace: inplace_control "CanUpdateInPlace P" "Inplace_Update A P retry" for A P retry
proof unfold_locales
  fix p r n w res w'
  assume u: "Inplace_Update A P retry p r n w = Inr (res, w')"
  then show "CanUpdateInPlace P r n = Inr (ur_in_place_update res)"
    unfolding Inplace_Update_eq CanUpdateInPlace_def bindP_def no_update_def
    by (auto split: option.split_asm prod.split_asm sum.split_asm)
  show "\<not> ur_in_place_update res \<Longrightarrow> res = no_update \<and> w' = w"
    using u unfolding Inplace_Update_eq bindP_def
    by (auto split: option.split_asm prod.split_asm sum.split_asm)
  show "ur_delay_duration res = 0"
    using u unfolding Inplace_Update_eq bindP_def no_update_def
    by (auto split: option.split_asm prod.split_asm sum.split_asm)
next
  fix p r n w b
  assume "CanUpdateInPlace P r n = Inr b"
  then show "\<exists>res w'. Inplace_Update A P retry p r n w = Inr (res, w')"
    unfolding Inplace_Update_eq CanUpdateInPlace_def bindP_def
    by (auto split: option.splits prod.splits sum.split_asm)
qed

subsection \<open>The written pod\<close>

lemma updatePodInPlace_writes:
  assumes "retry_contract retry" and "image_spec spec" and "us_metadata_patch spec = None"
    and "updatePodInPlace A P retry pod0 spec w = ((rv, None), w')"
  shows "\<exists>clone p newPod w1 w2 w3.
    get_pod A (pod_namespace pod0) (pod_name pod0) w1 = (Inr clone, w2) \<and>
    update_pod A p w3 = (Inr newPod, w') \<and> rv = pod_rv newPod \<and>
    EqualToRevisionHash (pod_labels p) (us_revision spec) \<and>
    pod_containers p = map (with_image (us_container_images spec)) (pod_containers clone) \<and>
    map_has (pod_annotations p) InPlaceUpdateStateKey \<and>
    (\<forall>k. is_revision_label k \<or> map_lookup (pod_labels p) k = map_lookup (pod_labels clone) k) \<and>
    p\<lparr>pod_labels := None, pod_annotations := None, pod_containers := []\<rparr> =
      clone\<lparr>pod_labels := None, pod_annotations := None, pod_containers := []\<rparr>"
    (is "?Q rv w'")
proof -
  have attempt: "?Q rv1 w1'" if "update_attempt A P pod0 spec (rv0, w0) = (None, (rv1, w1'))" for rv0 w0 rv1 w1'
  proof -
    obtain g w1 where get: "get_pod A (pod_namespace pod0) (pod_name pod0) w0 = (g, w1)" by fastforce
    with that obtain clone where g: "g = Inr clone"
      by (cases g) (simp_all add: update_attempt_def Adapter_GetPod_def)
    obtain t1 w2 where t1: "clock_now A w1 = (t1, w2)" by fastforce
    obtain t2 w3 where t2: "clock_now A w2 = (t2, w3)" by fastforce
    define c where "c = clone\<lparr>pod_labels := WriteRevisionHash (pod_labels clone) (us_revision spec),
      pod_annotations := map_put (ensure_map (pod_annotations clone)) InPlaceUpdateStateKey
        (marshal_state P (new_update_state spec t1))\<rparr>"
    define p where "p = patch_pod_and_state P spec c (new_update_state spec t1) t2"
    from patch_pod_and_state_eq [OF assms(2), of P c "new_update_state spec t1" t2]
    obtain state' where p: "p = c\<lparr>pod_labels := ensure_map (pod_labels c),
      pod_containers := map (with_image (us_container_images spec)) (pod_containers c),
      pod_annotations := map_put (pod_annotations c) InPlaceUpdateStateKey (marshal_state P state')\<rparr>"
      unfolding p_def by blast
    obtain u w4 where u: "update_pod A p w3 = (u, w4)" by fastforce
    have "update_attempt A P pod0 spec (rv0, w0) =
        (case u of Inl e \<Rightarrow> (Some e, (rv0, w4)) | Inr newPod \<Rightarrow> (None, (pod_rv newPod, w4)))"
      using get g t1 t2 u assms(3)
      by (simp add: update_attempt_def Adapter_GetPod_def Adapter_UpdatePod_def Let_def
          defaultPatchUpdateSpecToPod_def c_def p_def)
    with that obtain newPod where new: "u = Inr newPod" "rv1 = pod_rv newPod" "w1' = w4"
      by (cases u) simp_all
    have labels: "map_lookup (pod_labels p) k = map_lookup (WriteRevisionHash (pod_labels clone) (us_revision spec)) k" for k
      by (simp add: p c_def)
    have hash: "EqualToRevisionHash (pod_labels p) (us_revision spec)"
      using hash_adapter.equal_local [of "pod_labels p" "WriteRevisionHash (pod_labels clone) (us_revision spec)"]
        labels hash_adapter.equal_write by simp
    have kept: "is_revision_label k \<or> map_lookup (pod_labels p) k = map_lookup (pod_labels clone) k" for k
      unfolding labels using hash_adapter.write_frame by blast
    have written: "pod_containers p = map (with_image (us_container_images spec)) (pod_containers clone)"
      "map_has (pod_annotations p) InPlaceUpdateStateKey"
      "p\<lparr>pod_labels := None, pod_annotations := None, pod_containers := []\<rparr> =
        clone\<lparr>pod_labels := None, pod_annotations := None, pod_containers := []\<rparr>"
      by (simp_all add: p c_def)
    have calls: "get_pod A (pod_namespace pod0) (pod_name pod0) w0 = (Inr clone, w1)"
      "update_pod A p w3 = (Inr newPod, w1')"
      using get g u new by simp_all
    show ?thesis
      by (intro exI conjI) (rule calls new(2) hash written kept allI)+
  qed
  from assms(4) have run: "retry (update_attempt A P pod0 spec) ([], w) = (None, (rv, w'))"
    by (auto simp: updatePodInPlace_def split: prod.splits)
  have "None \<noteq> (None :: go_error option) \<or> ?Q (fst (rv, w')) (snd (rv, w'))"
  proof (rule retry_rule [where I = "\<lambda>_. True" and Q = "\<lambda>r s. r \<noteq> None \<or> ?Q (fst s) (snd s)",
        OF assms(1) _ _ TrueI run])
    fix s r s'
    assume "update_attempt A P pod0 spec s = (r, s')"
    then show "r \<noteq> None \<or> ?Q (fst s') (snd s')"
      using attempt [of "fst s" "snd s" "fst s'" "snd s'"] by (cases r) simp_all
  qed simp
  then show ?thesis by simp
qed

section \<open>A concrete patch library\<close>

text \<open>Two revisions that differ in the image of the first container.\<close>

definition image_change :: patch_op where
  "image_change = \<lparr>op_operation = ''replace'', op_path = ''/spec/template/spec/containers/0/image'',
     op_value = StringValue ''nginx:2''\<rparr>"

definition sample_patch_lib :: patch_lib where
  "sample_patch_lib =
     \<lparr>create_patch = (\<lambda>a b. Inr (if a = b then [] else [image_change])),
      unmarshal_template = (\<lambda>raw. Inr (Some sample_template)),
      two_way_merge_patch = (\<lambda>t t'. Inr ''{}''),
      strategic_merge_pod = (\<lambda>p patch. Inr p),
      marshal_state = (\<lambda>st. ius_revision st)\<rparr>"

definition running_pod :: pod where
  "running_pod = (sample_pod ''web-aaaaa'' PodRunning (WriteRevisionHash None ''web-r1''))
     \<lparr>pod_containers := tpl_containers sample_template\<rparr>"

section \<open>Properties\<close>

text \<open>
  C19: For two revisions that decode, \<open>CalculateSpec\<close> allows an in-place update exactly when every
  operation of the JSON patch changes metadata of the template or replaces the image of a container
  the old template has (and the metadata can be merged).  The first other operation decides:
  the answer is no, or a panic when it replaces an image by something that is not a string.
\<close>

theorem calculate_spec_accepts_images_and_metadata:
  assumes "create_patch P (rev_data old) (rev_data new) = Inr ops"
    and "unmarshal_template P (rev_data old) = Inr (Some t)"
    and "unmarshal_template P (rev_data new) = Inr (Some t')"
    and "spec = \<lparr>us_revision = rev_name new,
      us_container_images = set_images t (filter (image_op t) ops) [],
      us_container_ref_metadata = [], us_container_resources = [],
      us_metadata_patch = None, us_update_env_from_metadata = False\<rparr>"
  shows "CalculateSpec P (Some old) (Some new) =
    (case find (\<lambda>op. \<not> metadata_op op \<and> \<not> image_op t op) ops of
       Some op \<Rightarrow> if image_path_op t op then Inl FailedTypeAssertion else Inr None
     | None \<Rightarrow>
         if list_ex metadata_op ops
         then case two_way_merge_patch P t t' of
                Inl e \<Rightarrow> Inr None
              | Inr patch \<Rightarrow> Inr (Some (spec\<lparr>us_metadata_patch := Some patch\<rparr>))
         else Inr (Some spec))"
  by (rule calculate_spec_accepts [OF assms])

theorem calculate_spec_accepts_images_and_metadata_witness:
  "CalculateSpec sample_patch_lib (Some (sample_revision ''web-r1'' 1 ''d1'')) (Some (sample_revision ''web-r2'' 2 ''d2''))
     = Inr (Some \<lparr>us_revision = ''web-r2'', us_container_images = [(''main'', ''nginx:2'')],
         us_container_ref_metadata = [], us_container_resources = [],
         us_metadata_patch = None, us_update_env_from_metadata = False\<rparr>)"
proof -
  let ?old = "sample_revision ''web-r1'' 1 ''d1''" and ?new = "sample_revision ''web-r2'' 2 ''d2''"
  have P: "create_patch sample_patch_lib (rev_data ?old) (rev_data ?new) = Inr [image_change]"
    "unmarshal_template sample_patch_lib raw = Inr (Some sample_template)" for raw
    by (simp_all add: sample_patch_lib_def sample_revision_def)
  have ops: "image_op sample_template image_change" "\<not> metadata_op image_change"
    "set_images sample_template [image_change] [] = [(''main'', ''nginx:2'')]" "rev_name ?new = ''web-r2''"
    by code_simp+
  show ?thesis
    using calculate_spec_accepts_images_and_metadata [OF P(1) P(2) P(2) refl] by (simp add: ops)
qed

text \<open>
  C14: The images a spec sets by container name are those the JSON patch sets by index: on a pod
  whose containers carry the names of the old template's, in its order and without repetition, the
  containers after the update are those after applying the image replacements of the patch one by one.
\<close>

theorem in_place_images_follow_the_patch:
  assumes "create_patch P (rev_data old) (rev_data new) = Inr ops"
    and "unmarshal_template P (rev_data old) = Inr (Some t)"
    and "unmarshal_template P (rev_data new) = Inr (Some t')"
    and "CalculateSpec P (Some old) (Some new) = Inr (Some spec)"
    and "map ct_name (pod_containers p) = map ct_name (tpl_containers t)"
    and "distinct (map ct_name (tpl_containers t))"
  shows "pod_containers (patch_pod_and_state P spec p state now) =
    foldl replace_image (pod_containers p) (filter (image_op t) ops)"
proof -
  let ?cs = "pod_containers p" and ?images = "set_images t (filter (image_op t) ops) []"
  have images: "us_container_images spec = ?images"
    using assms(4) unfolding calculate_spec_accepts [OF assms(1-3) refl]
    by (auto split: option.splits if_splits sum.splits)
  obtain state' where "patch_pod_and_state P spec p state now =
    p\<lparr>pod_labels := ensure_map (pod_labels p),
      pod_containers := map (with_image (us_container_images spec)) ?cs,
      pod_annotations := map_put (pod_annotations p) InPlaceUpdateStateKey (marshal_state P state')\<rparr>"
    using patch_pod_and_state_eq CalculateSpec_image_spec [OF assms(4)] by blast
  then have "pod_containers (patch_pod_and_state P spec p state now) = map (with_image ?images) ?cs"
    by (simp add: images)
  also have "\<dots> = foldl replace_image (map (with_image []) ?cs) (filter (image_op t) ops)"
  proof (rule set_images_by_index)
    show "distinct (map ct_name ?cs)" "map ct_name ?cs = map ct_name (tpl_containers t)"
      using assms(5,6) by simp_all
    have "length ?cs = length (tpl_containers t)" using assms(5) by (metis length_map)
    then show "list_all (\<lambda>op. op_index op < length ?cs) (filter (image_op t) ops)"
      by (auto simp: list_all_iff op_kinds Let_def)
  qed
  also have "map (with_image []) ?cs = ?cs" by (intro map_idI) (simp add: with_image_def)
  finally show ?thesis .
qed

theorem in_place_images_follow_the_patch_witness:
  "\<exists>spec. CalculateSpec sample_patch_lib (Some (sample_revision ''web-r1'' 1 ''d1''))
       (Some (sample_revision ''web-r2'' 2 ''d2'')) = Inr (Some spec) \<and>
     map ct_image (pod_containers (patch_pod_and_state sample_patch_lib spec running_pod
       (new_update_state spec 5) 5)) = [''nginx:2'']"
proof -
  let ?old = "sample_revision ''web-r1'' 1 ''d1''" and ?new = "sample_revision ''web-r2'' 2 ''d2''"
  let ?calc = "CalculateSpec sample_patch_lib (Some ?old) (Some ?new)"
  have P: "create_patch sample_patch_lib (rev_data ?old) (rev_data ?new) = Inr [image_change]"
    "unmarshal_template sample_patch_lib raw = Inr (Some sample_template)" for raw
    by (simp_all add: sample_patch_lib_def sample_revision_def)
  have "\<not> isl ?calc" "projr ?calc \<noteq> None" by code_simp+
  then obtain spec where spec: "?calc = Inr (Some spec)" by (cases ?calc) auto
  have names: "map ct_name (pod_containers running_pod) = map ct_name (tpl_containers sample_template)"
    "distinct (map ct_name (tpl_containers sample_template))"
    by code_simp+
  have "map ct_image (foldl replace_image (pod_containers running_pod)
      (filter (image_op sample_template) [image_change])) = [''nginx:2'']"
    by code_simp
  with spec in_place_images_follow_the_patch [OF P(1) P(2) P(2) spec names]
  show ?thesis by simp
qed



end
