(* ===== verification/Update_Sync.thy ===== *)
theory Update_Sync
  imports Scale_Diff Inplaceu_Core Pod_Sorts Inplace_Update
begin

text \<open>
  \<open>internal/sync/inplaceu_update.go\<close> and \<open>internal/specifieddelete/specified_delete.go\<close>: which pods
  of an old revision are moved to the update revision in a call, and how: in place, or by marking
  them for deletion so that the scale control replaces them.
\<close>

section \<open>Specified deletion\<close>

text \<open>The patch body sets the label; the server's answer is written into the pod.\<close>

definition PatchPodSpecifiedDelete ::
  "'w api \<Rightarrow> pod \<Rightarrow> string \<Rightarrow> 'w \<Rightarrow> ((bool \<times> go_error option) \<times> pod) \<times> 'w" where
  "PatchPodSpecifiedDelete A p value w =
     (if map_has (pod_labels p) SpecifiedDeleteKey then (((False, None), p), w)
      else case patch_pod A p value w of
             (Inl e, w) \<Rightarrow> (((True, Some e), p), w)
           | (Inr p', w) \<Rightarrow> (((True, None), p'), w))"

section \<open>Limiting the pods to update\<close>

definition can_be_updated :: "pod \<Rightarrow> bool" where
  "can_be_updated p = (pod_phase p \<noteq> PodSucceeded \<and> pod_phase p \<noteq> PodFailed \<and> pod_phase p \<noteq> PodUnknown)"

definition wait_update_indexes :: "pod list \<Rightarrow> string \<Rightarrow> nat list" where
  "wait_update_indexes pods updateRevision =
     filter (\<lambda>i. \<not> is_pod_update updateRevision (pods ! i) \<and> can_be_updated (pods ! i)) [0..<length pods]"

definition count_unavailable :: "pod list \<Rightarrow> string \<Rightarrow> int \<times> int" where
  "count_unavailable pods targetRevisionHash =
     foldl (\<lambda>(unavailable, target) p.
        if \<not> IsRunning p
        then (unavailable + 1, if is_pod_update targetRevisionHash p then target + 1 else target)
        else (unavailable, target)) (0, 0) pods"

fun count_can_update :: "(nat \<Rightarrow> bool) \<Rightarrow> int \<Rightarrow> int \<Rightarrow> int \<Rightarrow> int \<Rightarrow> nat list \<Rightarrow> int" where
  "count_can_update running maxUnavailable target unavailable canUpdate [] = canUpdate"
| "count_can_update running maxUnavailable target unavailable canUpdate (i # is) =
     (if target + canUpdate \<ge> maxUnavailable then canUpdate
      else if running i
      then if unavailable \<ge> maxUnavailable then canUpdate
           else count_can_update running maxUnavailable target (unavailable + 1) (canUpdate + 1) is
      else count_can_update running maxUnavailable target unavailable (canUpdate + 1) is)"

definition limitUpdateIndexes ::
  "expectation_diffs \<Rightarrow> nat list \<Rightarrow> pod list \<Rightarrow> string \<Rightarrow> nat list may_panic" where
  "limitUpdateIndexes diffRes waitUpdateIndexes pods targetRevisionHash =
     bindP (if updateNum diffRes < int (length waitUpdateIndexes)
            then slice_to waitUpdateIndexes (updateNum diffRes) else Inr waitUpdateIndexes)
     (\<lambda>waitUpdateIndexes.
        let (unavailableCount, targetRevisionUnavailableCount) = count_unavailable pods targetRevisionHash;
            canUpdateCount = count_can_update (\<lambda>i. IsRunning (pods ! i)) (updateMaxUnavailable diffRes)
              targetRevisionUnavailableCount unavailableCount 0 waitUpdateIndexes
        in if canUpdateCount < int (length waitUpdateIndexes)
           then slice_to waitUpdateIndexes canUpdateCount else Inr waitUpdateIndexes)"

section \<open>Updating a pod\<close>

text \<open>The result keeps the pod as the call leaves it: a patch writes the server's answer into it.\<close>

definition old_revision_of :: "revision list \<Rightarrow> pod \<Rightarrow> revision option" where
  "old_revision_of revisions p = find (\<lambda>r. is_pod_update (rev_name r) p) revisions"

definition recreate_pod ::
  "'w api \<Rightarrow> pod \<Rightarrow> 'w sys \<Rightarrow> ((duration \<times> go_error option) \<times> pod) \<times> 'w sys" where
  "recreate_pod A p s =
     (case on_world (PatchPodSpecifiedDelete A p ''true'') s of
        (((patched, Some e), p'), s) \<Rightarrow>
          (((0, Some e), p'), record_event EventWarning ''FailedUpdatePodReCreate'' (pod_name p) s)
      | (((patched, None), p'), s) \<Rightarrow>
          (let s = (if patched then expect_rv (pod_uid p') (pod_rv p') s else s)
           in (((0, None), p'), record_event EventNormal ''SuccessfulUpdatePodReCreate'' (pod_name p') s)))"

definition updatePod ::
  "'w api \<Rightarrow> patch_lib \<Rightarrow> ((string \<times> 'w) attempt \<Rightarrow> (string \<times> 'w) attempt) \<Rightarrow> revision \<Rightarrow> revision list \<Rightarrow>
     pod \<Rightarrow> 'w sys \<Rightarrow> (((duration \<times> go_error option) \<times> pod) \<times> 'w sys) may_panic" where
  "updatePod A P retry updateRevision revisions p s =
     (let oldRevision = old_revision_of revisions p
      in bindP (CanUpdateInPlace P oldRevision (Some updateRevision)) (\<lambda>can.
         if \<not> can then Inr (recreate_pod A p s)
         else bindP (Inplace_Update A P retry p oldRevision (Some updateRevision) (world s)) (\<lambda>(res, w).
           let s = s\<lparr>world := w\<rparr>
           in if ur_in_place_update res
              then case ur_update_err res of
                     None \<Rightarrow>
                       (let s = record_event EventNormal ''SuccessfulUpdatePodInPlace'' (pod_name p) s;
                            s = expect_rv (pod_uid p) (ur_new_resource_version res) s
                        in Inr (((ur_delay_duration res, None), p), s))
                   | Some e \<Rightarrow>
                       Inr (((ur_delay_duration res, Some e), p),
                         record_event EventWarning ''FailedUpdatePodInPlace'' (pod_name p) s)
              else Inr (recreate_pod A p s))))"

fun update_each ::
  "'w api \<Rightarrow> patch_lib \<Rightarrow> ((string \<times> 'w) attempt \<Rightarrow> (string \<times> 'w) attempt) \<Rightarrow> string \<Rightarrow> revision \<Rightarrow>
     revision list \<Rightarrow> nat list \<Rightarrow> pod list \<Rightarrow> 'w sys \<Rightarrow> ((go_error option \<times> pod list) \<times> 'w sys) may_panic" where
  "update_each A P retry key updateRevision revisions [] pods s = Inr ((None, pods), s)"
| "update_each A P retry key updateRevision revisions (idx # is) pods s =
     bindP (updatePod A P retry updateRevision revisions (pods ! idx) s) (\<lambda>(((duration, err), p), s).
       let pods = pods[idx := p];
           s = (if duration > 0 then push_duration key duration s else s)
       in case err of
            Some e \<Rightarrow> Inr ((Some e, pods), s)
          | None \<Rightarrow> update_each A P retry key updateRevision revisions is pods s)"

text \<open>
  \<open>sort.Slice\<close> is called with a less function that compares the pods at two positions of the slice
  being sorted: its effect on the slice is \<open>sort_indexes\<close> with the comparison of the elements.
\<close>

definition Update ::
  "pod_lib \<Rightarrow> meta_lib \<Rightarrow> 'w api \<Rightarrow> patch_lib \<Rightarrow> ((string \<times> 'w) attempt \<Rightarrow> (string \<times> 'w) attempt) \<Rightarrow> inplaceu \<Rightarrow>
     revision \<Rightarrow> revision \<Rightarrow> revision list \<Rightarrow> pod list \<Rightarrow> 'w sys \<Rightarrow>
     ((go_error option \<times> pod list) \<times> 'w sys) may_panic" where
  "Update L M A P retry iu currentRevision updateRevision revisions pods s =
     (let key = GetControllerKey M iu
      in bindP (calculateDiffsWithExpectation L iu pods (rev_name currentRevision) (rev_name updateRevision))
         (\<lambda>diffRes.
           if updateNum diffRes = 0 then Inr ((None, pods), s)
           else let waitUpdateIndexes = sort_indexes L (GetPodsSortFunc L pods)
                      (wait_update_indexes pods (rev_name updateRevision))
                in bindP (limitUpdateIndexes diffRes waitUpdateIndexes pods (rev_name updateRevision))
                   (\<lambda>waitUpdateIndexes.
                      update_each A P retry key updateRevision revisions waitUpdateIndexes pods s)))"

section \<open>Lemmas\<close>

subsection \<open>The limit\<close>

lemma count_unavailable_eq:
  "count_unavailable pods r =
     (count_where (\<lambda>p. \<not> IsRunning p) pods, count_where (\<lambda>p. \<not> IsRunning p \<and> is_pod_update r p) pods)"
proof -
  have "foldl (\<lambda>(unavailable, target) p.
        if \<not> IsRunning p
        then (unavailable + 1, if is_pod_update r p then target + 1 else target)
        else (unavailable, target)) (u, t) pods =
     (u + count_where (\<lambda>p. \<not> IsRunning p) pods,
      t + count_where (\<lambda>p. \<not> IsRunning p \<and> is_pod_update r p) pods)" for u t
    by (induction pods arbitrary: u t) auto
  then show ?thesis by (simp add: count_unavailable_def)
qed

text \<open>The loop stops after some number of indexes: within the budget, and as late as possible.\<close>

lemma count_can_update_spec:
  "\<exists>k \<le> length is. count_can_update running mx t u c is = c + int k \<and>
     u + count_where running (take k is) \<le> max u mx \<and> t + c + int k \<le> max (t + c) mx \<and>
     (k = length is \<or> mx \<le> t + c + int k \<or> running (is ! k) \<and> mx \<le> u + count_where running (take k is))"
proof (induction "is" arbitrary: u c)
  case Nil
  then show ?case by simp
next
  case (Cons i "is")
  show ?case
  proof (cases "t + c \<ge> mx \<or> running i \<and> u \<ge> mx")
    case True
    then show ?thesis by (intro exI [of _ 0]) auto
  next
    case False
    let ?u = "if running i then u + 1 else u"
    from Cons.IH [of ?u "c + 1"] obtain k where k: "k \<le> length is"
      "count_can_update running mx t ?u (c + 1) is = c + 1 + int k"
      "?u + count_where running (take k is) \<le> max ?u mx" "t + (c + 1) + int k \<le> max (t + (c + 1)) mx"
      "k = length is \<or> mx \<le> t + (c + 1) + int k \<or>
        running (is ! k) \<and> mx \<le> ?u + count_where running (take k is)"
      by blast
    show ?thesis
      by (intro exI [of _ "Suc k"]) (use False k in \<open>auto split: if_splits\<close>)
  qed
qed

lemma limitUpdateIndexes_spec:
  assumes "0 \<le> updateNum d"
  shows "\<exists>k. limitUpdateIndexes d ws pods r = Inr (take k ws) \<and>
    k \<le> length ws \<and> int k \<le> updateNum d \<and>
    count_where (\<lambda>p. \<not> IsRunning p) pods + count_where (\<lambda>i. IsRunning (pods ! i)) (take k ws)
      \<le> max (count_where (\<lambda>p. \<not> IsRunning p) pods) (updateMaxUnavailable d) \<and>
    count_where (\<lambda>p. \<not> IsRunning p \<and> is_pod_update r p) pods + int k
      \<le> max (count_where (\<lambda>p. \<not> IsRunning p \<and> is_pod_update r p) pods) (updateMaxUnavailable d) \<and>
    (int k = min (updateNum d) (int (length ws)) \<or>
     updateMaxUnavailable d \<le> count_where (\<lambda>p. \<not> IsRunning p \<and> is_pod_update r p) pods + int k \<or>
     IsRunning (pods ! (ws ! k)) \<and>
       updateMaxUnavailable d \<le> count_where (\<lambda>p. \<not> IsRunning p) pods +
         count_where (\<lambda>i. IsRunning (pods ! i)) (take k ws))"
proof -
  define n where "n = (if updateNum d < int (length ws) then nat (updateNum d) else length ws)"
  have n: "n \<le> length ws" "int n \<le> updateNum d" "int n = min (updateNum d) (int (length ws))"
    using assms by (auto simp: n_def)
  have cut: "(if updateNum d < int (length ws) then slice_to ws (updateNum d) else Inr ws) = Inr (take n ws)"
    using assms by (auto simp: n_def slice_to_def)
  let ?run = "\<lambda>i. IsRunning (pods ! i)"
  let ?u = "count_where (\<lambda>p. \<not> IsRunning p) pods"
  let ?t = "count_where (\<lambda>p. \<not> IsRunning p \<and> is_pod_update r p) pods"
  let ?mx = "updateMaxUnavailable d"
  obtain k where k: "k \<le> length (take n ws)"
    "count_can_update ?run ?mx ?t ?u 0 (take n ws) = int k"
    "?u + count_where ?run (take k (take n ws)) \<le> max ?u ?mx" "?t + int k \<le> max ?t ?mx"
    "k = length (take n ws) \<or> ?mx \<le> ?t + int k \<or>
      ?run (take n ws ! k) \<and> ?mx \<le> ?u + count_where ?run (take k (take n ws))"
    using count_can_update_spec [of "take n ws" ?run ?mx ?t ?u 0] by auto
  have kn: "k \<le> n" "min k n = k" using k(1) by simp_all
  have "limitUpdateIndexes d ws pods r = Inr (take k ws)"
    using k(1,2) by (auto simp: limitUpdateIndexes_def cut count_unavailable_eq slice_to_def Let_def)
  moreover have "k = n \<or> take n ws ! k = ws ! k" using kn by (cases "k = n") auto
  ultimately show ?thesis
    using k kn n by (intro exI [of _ k]) auto
qed

subsection \<open>One pod\<close>

text \<open>What an update of one pod leaves in the controller's own state.\<close>

definition one_event :: "'w sys \<Rightarrow> 'w sys \<Rightarrow> string list \<Rightarrow> bool" where
  "one_event s s' reasons \<longleftrightarrow>
     (\<exists>t r obj. r \<in> set reasons \<and> events s' = events s @ [event_of t r obj]) \<and>
     scale_exps s' = scale_exps s \<and> durations s' = durations s"

lemma recreate_pod_effect:
  assumes "recreate_pod A p s = (((duration, err), p'), s')"
  shows "duration = 0 \<and>
    one_event s s' (if err = None then [''SuccessfulUpdatePodReCreate''] else [''FailedUpdatePodReCreate'']) \<and>
    rv_exps s' = (if err = None \<and> \<not> map_has (pod_labels p) SpecifiedDeleteKey
                  then RVExpect (rv_exps s) (pod_uid p') (pod_rv p') else rv_exps s)"
proof -
  obtain r s1 where call: "on_world (PatchPodSpecifiedDelete A p ''true'') s = (r, s1)" by fastforce
  have frame: "events s1 = events s" "scale_exps s1 = scale_exps s" "rv_exps s1 = rv_exps s"
    "durations s1 = durations s"
    using on_world_frame [of "PatchPodSpecifiedDelete A p ''true''" s] call by simp_all
  have r: "r = fst (PatchPodSpecifiedDelete A p ''true'' (world s))"
    using on_world_frame(6) [of "PatchPodSpecifiedDelete A p ''true''" s] call by simp
  show ?thesis
    using assms call frame r
    by (auto simp: recreate_pod_def PatchPodSpecifiedDelete_def one_event_def Let_def event_of_def
        record_event_def split: prod.splits option.splits sum.splits if_splits)
qed

lemma updatePod_effect:
  assumes "updatePod A P retry up revs p s = Inr (((duration, err), p'), s')"
  shows "duration = 0 \<and> (\<exists>can. CanUpdateInPlace P (old_revision_of revs p) (Some up) = Inr can \<and>
    (if can then p' = p \<and>
       one_event s s' (if err = None then [''SuccessfulUpdatePodInPlace''] else [''FailedUpdatePodInPlace'']) \<and>
       (\<exists>rv. rv_exps s' = (if err = None then RVExpect (rv_exps s) (pod_uid p) rv else rv_exps s))
     else recreate_pod A p s = (((duration, err), p'), s')))"
proof -
  let ?old = "old_revision_of revs p"
  obtain can where can: "CanUpdateInPlace P ?old (Some up) = Inr can"
    using assms by (cases "CanUpdateInPlace P ?old (Some up)") (auto simp: updatePod_def Let_def)
  show ?thesis
  proof (cases can)
    case False
    with assms can have "recreate_pod A p s = (((duration, err), p'), s')"
      by (simp add: updatePod_def Let_def)
    moreover from recreate_pod_effect [OF this] have "duration = 0" by blast
    ultimately show ?thesis using False can by auto
  next
    case True
    with can have "CanUpdateInPlace P ?old (Some up) = Inr True" by simp
    from inplace.upd_when_can [OF this] obtain res w where
      res: "Inplace_Update A P retry p ?old (Some up) (world s) = Inr (res, w)"
      "ur_in_place_update res" "ur_delay_duration res = 0" .
    show ?thesis
    proof (cases "ur_update_err res")
      case None
      let ?s = "expect_rv (pod_uid p) (ur_new_resource_version res)
        (record_event EventNormal ''SuccessfulUpdatePodInPlace'' (pod_name p) (s\<lparr>world := w\<rparr>))"
      have "updatePod A P retry up revs p s = Inr (((0, None), p), ?s)"
        using can True res None by (simp add: updatePod_def Let_def)
      then have "Inr (((0, None), p), ?s) = (Inr (((duration, err), p'), s') :: _ may_panic)"
        using assms by (rule trans [OF sym])
      then have r: "duration = 0" "err = None" "p' = p" "s' = ?s"
        unfolding sum.inject prod.inject by blast+
      have "one_event s ?s [''SuccessfulUpdatePodInPlace'']" by (auto simp: one_event_def)
      with can True r show ?thesis by auto
    next
      case (Some e)
      let ?s = "record_event EventWarning ''FailedUpdatePodInPlace'' (pod_name p) (s\<lparr>world := w\<rparr>)"
      have "updatePod A P retry up revs p s = Inr (((0, Some e), p), ?s)"
        using can True res Some by (simp add: updatePod_def Let_def)
      then have "Inr (((0, Some e), p), ?s) = (Inr (((duration, err), p'), s') :: _ may_panic)"
        using assms by (rule trans [OF sym])
      then have r: "duration = 0" "err = Some e" "p' = p" "s' = ?s"
        unfolding sum.inject prod.inject by blast+
      have "one_event s ?s [''FailedUpdatePodInPlace'']" by (auto simp: one_event_def)
      with can True r show ?thesis by auto
    qed
  qed
qed

subsection \<open>The loop over the pods\<close>

lemma update_each_effect:
  assumes "update_each A P retry key up revs is pods s = Inr ((err, pods'), s')"
  shows "length pods' = length pods \<and> (\<forall>i. i \<in> set is \<or> pods' ! i = pods ! i) \<and>
    (\<exists>evs. events s' = events s @ evs \<and> length evs \<le> length is \<and> (err \<noteq> None \<or> length evs = length is)) \<and>
    scale_exps s' = scale_exps s \<and> durations s' = durations s"
  using assms
proof (induction "is" arbitrary: pods s)
  case Nil
  then show ?case by simp
next
  case (Cons i "is")
  from Cons.prems obtain d e p s1 where one: "updatePod A P retry up revs (pods ! i) s = Inr (((d, e), p), s1)"
    by (cases "updatePod A P retry up revs (pods ! i) s") (auto simp del: split_paired_Ex)
  note effect = updatePod_effect [OF one]
  have ev: "\<exists>ev. events s1 = events s @ [ev]" "scale_exps s1 = scale_exps s" "durations s1 = durations s"
    using effect recreate_pod_effect [of A "pods ! i" s d e p s1]
    by (auto simp: one_event_def split: if_splits)
  have d: "\<not> 0 < d" using effect by simp
  show ?case
  proof (cases e)
    case (Some x)
    with Cons.prems one d ev show ?thesis by (auto simp: nth_list_update)
  next
    case None
    with Cons.prems one d have "update_each A P retry key up revs is (pods[i := p]) s1 = Inr ((err, pods'), s')"
      by simp
    from Cons.IH [OF this] ev show ?thesis
      by (auto simp: nth_list_update split: if_splits)
  qed
qed

text \<open>The events of the loop are those of updates only.\<close>

lemma update_each_events:
  assumes "update_each A P retry key up revs is pods s = Inr ((err, pods'), s')"
  shows "events_grow s s' \<and> new_objects ''SuccessfulCreate'' s s' = [] \<and> new_objects ''SuccessfulDelete'' s s' = []"
  using assms
proof (induction "is" arbitrary: pods s)
  case Nil
  then show ?case by (simp add: events_grow_same new_objects_same)
next
  case (Cons i "is")
  from Cons.prems obtain d e p s1 where one: "updatePod A P retry up revs (pods ! i) s = Inr (((d, e), p), s1)"
    by (cases "updatePod A P retry up revs (pods ! i) s") (auto simp del: split_paired_Ex)
  note effect = updatePod_effect [OF one]
  obtain t r obj where ev: "events s1 = events s @ [event_of t r obj]"
    and r: "r \<noteq> ''SuccessfulCreate''" "r \<noteq> ''SuccessfulDelete''"
    using effect recreate_pod_effect [of A "pods ! i" s d e p s1]
    by (auto simp: one_event_def split: if_splits)
  have here: "events_grow s s1" "new_objects ''SuccessfulCreate'' s s1 = []" "new_objects ''SuccessfulDelete'' s s1 = []"
    using ev r by (simp_all add: events_grow_def new_objects_def)
  have d: "\<not> 0 < d" using effect by simp
  show ?case
  proof (cases e)
    case (Some x)
    with Cons.prems one d here show ?thesis by auto
  next
    case None
    with Cons.prems one d have "update_each A P retry key up revs is (pods[i := p]) s1 = Inr ((err, pods'), s')"
      by simp
    from Cons.IH [OF this] here show ?thesis
      using events_grow_trans [of s s1 s'] new_objects_trans [of s s1 s'] by simp
  qed
qed

lemma waiting_indexes:
  assumes "sort_contract (sort_indexes L)"
    and "ws = sort_indexes L (GetPodsSortFunc L pods) (wait_update_indexes pods r)"
  shows "distinct ws" and "i \<in> set ws \<longleftrightarrow> i < length pods \<and> \<not> is_pod_update r (pods ! i) \<and> can_be_updated (pods ! i)"
proof -
  have m: "mset ws = mset (wait_update_indexes pods r)"
    unfolding assms(2) by (rule sort_contract_mset [OF assms(1)])
  have "distinct (wait_update_indexes pods r)" by (simp add: wait_update_indexes_def)
  with m show "distinct ws" by (metis mset_eq_imp_distinct_iff)
  have "set ws = set (wait_update_indexes pods r)" using m by (rule mset_eq_setD)
  then show "i \<in> set ws \<longleftrightarrow> i < length pods \<and> \<not> is_pod_update r (pods ! i) \<and> can_be_updated (pods ! i)"
    by (auto simp: wait_update_indexes_def)
qed

text \<open>The indexes a call of \<open>Update\<close> works on, and the loop it runs over them.\<close>

lemma calculateDiffs_updates:
  assumes "calculateDiffsWithExpectation L iu pods cur r = Inr d"
    and "sp_replicas (iu_spec iu) = Some rs" and "ds_rolling_update (sp_strategy (iu_spec iu)) = Some ru"
  shows "updateNum d = waiting_count r pods"
    and "updateMaxUnavailable d =
      (if waiting_count r pods > 0 then max_unavailable L ru (sint rs) + int (length pods) - sint rs else 0)"
  using assms(1) unfolding calculateDiffs_eq [OF assms(2,3)] diffs_of_counts_spec Let_def by auto

lemma Update_loop:
  assumes "Update L M A P retry iu cur up revs pods s = Inr ((err, pods'), s')"
    and "sp_replicas (iu_spec iu) = Some rs" and "ds_rolling_update (sp_strategy (iu_spec iu)) = Some ru"
    and "ws = sort_indexes L (GetPodsSortFunc L pods) (wait_update_indexes pods (rev_name up))"
  shows "\<exists>k \<le> length ws. int k \<le> waiting_count (rev_name up) pods \<and>
    (k = 0 \<or> count_where (\<lambda>p. \<not> IsRunning p) pods + count_where (\<lambda>i. IsRunning (pods ! i)) (take k ws)
       \<le> max (count_where (\<lambda>p. \<not> IsRunning p) pods)
            (max_unavailable L ru (sint rs) + int (length pods) - sint rs)) \<and>
    update_each A P retry (GetControllerKey M iu) up revs (take k ws) pods s = Inr ((err, pods'), s')"
proof -
  obtain d where d: "calculateDiffsWithExpectation L iu pods (rev_name cur) (rev_name up) = Inr d"
    using calculateDiffs_eq [OF assms(2,3)] by blast
  note n = calculateDiffs_updates [OF d assms(2,3)] pod_quantities_nonneg(2) [of "rev_name up" pods]
  show ?thesis
  proof (cases "updateNum d = 0")
    case True
    with assms(1) d have "Inr ((err, pods'), s') = (Inr ((None, pods), s) :: _ may_panic)"
      by (simp add: Update_def)
    with n show ?thesis by (intro exI [of _ 0]) simp
  next
    case False
    from limitUpdateIndexes_spec [of d ws pods "rev_name up"] n obtain k where
      k: "limitUpdateIndexes d ws pods (rev_name up) = Inr (take k ws)" "k \<le> length ws" "int k \<le> updateNum d"
        "count_where (\<lambda>p. \<not> IsRunning p) pods + count_where (\<lambda>i. IsRunning (pods ! i)) (take k ws)
          \<le> max (count_where (\<lambda>p. \<not> IsRunning p) pods) (updateMaxUnavailable d)"
      by auto
    have "update_each A P retry (GetControllerKey M iu) up revs (take k ws) pods s = Inr ((err, pods'), s')"
      using assms(1) False d k(1) by (simp add: Update_def Let_def flip: assms(4))
    with k n False show ?thesis by (intro exI [of _ k]) auto
  qed
qed

text \<open>What every call leaves in the controller's own state, with the spec complete or not.\<close>

lemma Update_frame:
  assumes "Update L M A P retry iu cur up revs pods s = Inr ((err, pods'), s')"
  shows "events_grow s s' \<and> new_objects ''SuccessfulCreate'' s s' = [] \<and> new_objects ''SuccessfulDelete'' s s' = [] \<and>
    scale_exps s' = scale_exps s \<and> length pods' = length pods"
proof -
  obtain d where d: "calculateDiffsWithExpectation L iu pods (rev_name cur) (rev_name up) = Inr d"
    using assms by (cases "calculateDiffsWithExpectation L iu pods (rev_name cur) (rev_name up)")
      (auto simp: Update_def)
  show ?thesis
  proof (cases "updateNum d = 0")
    case True
    with assms d have "Inr ((err, pods'), s') = (Inr ((None, pods), s) :: _ may_panic)"
      by (simp add: Update_def)
    then show ?thesis by (simp add: events_grow_same new_objects_same)
  next
    case False
    with assms d obtain idxs where "update_each A P retry (GetControllerKey M iu) up revs idxs pods s = Inr ((err, pods'), s')"
      by (auto simp: Update_def Let_def bindP_eq_Inr)
    from update_each_events [OF this] update_each_effect [OF this] show ?thesis by blast
  qed
qed

section \<open>Properties\<close>

text \<open>
  C16: \<open>limitUpdateIndexes\<close> takes a prefix of the waiting pods, no longer than \<open>updateNum\<close>, such that
  neither the pods of all revisions that do not run, nor those of the update revision, exceed
  \<open>updateMaxUnavailable\<close> once the chosen pods are down, unless they did before; and it stops only
  where the next pod would break one of the two bounds.
\<close>

theorem limit_update_indexes_is_longest_prefix_in_budget:
  assumes "0 \<le> updateNum d"
    and "down = count_where (\<lambda>p. \<not> IsRunning p) pods"
    and "down_new = count_where (\<lambda>p. \<not> IsRunning p \<and> is_pod_update r p) pods"
  shows "\<exists>k. limitUpdateIndexes d ws pods r = Inr (take k ws) \<and> k \<le> length ws \<and> int k \<le> updateNum d \<and>
    down + count_where (\<lambda>i. IsRunning (pods ! i)) (take k ws) \<le> max down (updateMaxUnavailable d) \<and>
    down_new + int k \<le> max down_new (updateMaxUnavailable d) \<and>
    (int k = min (updateNum d) (int (length ws)) \<or> updateMaxUnavailable d \<le> down_new + int k \<or>
     IsRunning (pods ! (ws ! k)) \<and>
       updateMaxUnavailable d \<le> down + count_where (\<lambda>i. IsRunning (pods ! i)) (take k ws))"
  using limitUpdateIndexes_spec [OF assms(1)] unfolding assms(2,3) .

theorem limit_update_indexes_is_longest_prefix_in_budget_witness:
  "\<exists>k. limitUpdateIndexes (empty_diffs\<lparr>updateNum := 2, updateMaxUnavailable := 1\<rparr>) [1, 0]
      [sample_pod ''a'' PodRunning None, sample_pod ''b'' PodRunning None] ''web-r2'' = Inr (take k [1, 0]) \<and>
    int k \<le> 1"
proof -
  let ?pods = "[sample_pod ''a'' PodRunning None, sample_pod ''b'' PodRunning None]"
  have none: "count_where (\<lambda>p. \<not> IsRunning p \<and> is_pod_update ''web-r2'' p) ?pods = 0"
    by (simp add: IsRunning_def sample_pod_def)
  from limit_update_indexes_is_longest_prefix_in_budget
    [of "empty_diffs\<lparr>updateNum := 2, updateMaxUnavailable := 1\<rparr>" _ ?pods _ "''web-r2''" "[1, 0]", OF _ refl refl]
  show ?thesis unfolding none by auto
qed





text \<open>
  C18: After a successful in-place update, a copy of the pod older than the one written does not
  satisfy the resource-version expectations: the controller will not act on the pod again before its
  cache has seen the update.
\<close>

theorem updated_pod_is_awaited:
  assumes "updatePod A P retry up revs p s = Inr (((duration, None), p'), s')"
    and "Inplace_Update A P retry p (old_revision_of revs p) (Some up) (world s) = Inr (res, w)"
    and "ur_in_place_update res"
    and "parse_uint64 (ur_new_resource_version res) = Some n"
    and "numeric_versions (rv_exps s)"
    and "parse_uint64 rv = Some m" and "m < n"
  shows "\<not> fst (fst (RVIsSatisfied now now' (rv_exps s') (pod_uid p) rv))"
proof -
  have can: "CanUpdateInPlace P (old_revision_of revs p) (Some up) = Inr True"
    using inplace.can_of_upd [OF assms(2)] assms(3) by simp
  have "rv_exps s' = RVExpect (rv_exps s) (pod_uid p) (ur_new_resource_version res)"
  proof (cases "ur_update_err res")
    case None
    with assms(1,2,3) can show ?thesis by (auto simp: updatePod_def Let_def)
  next
    case (Some e)
    with assms(1,2,3) can show ?thesis by (auto simp: updatePod_def Let_def)
  qed
  moreover have "\<not> is_satisfied_rv (RVExpect (rv_exps s) (pod_uid p) (ur_new_resource_version res)) (pod_uid p) rv"
    using rv_store.satisfied_iff [OF rv_store.inv_expect [OF assms(5,4)] assms(6)]
      rv_store.expected_expect [OF assms(5,4)] assms(7)
    by (auto split: option.splits)
  ultimately show ?thesis by (simp add: RVIsSatisfied_answer)
qed

theorem updated_pod_is_awaited_witness:
  "\<exists>r. updatePod sample_api sample_patch_lib (attempts 3) (sample_revision ''web-r2'' 2 ''d2'')
      [sample_revision ''web-r1'' 1 ''d1''] running_pod sample_sys = Inr r \<and>
    \<not> fst (fst (RVIsSatisfied 5 6 (rv_exps (snd r)) (pod_uid running_pod) (pod_rv running_pod)))"
proof -
  let ?up = "sample_revision ''web-r2'' 2 ''d2''" and ?revs = "[sample_revision ''web-r1'' 1 ''d1'']"
  let ?run = "updatePod sample_api sample_patch_lib (attempts 3) ?up ?revs running_pod sample_sys"
  let ?upd = "Inplace_Update sample_api sample_patch_lib (attempts 3) running_pod
    (old_revision_of ?revs running_pod) (Some ?up) (world sample_sys)"
  have "\<not> isl ?run" "snd (fst (fst (projr ?run))) = None" by code_simp+
  then obtain d p' s' where run: "?run = Inr (((d, None), p'), s')" by (cases ?run) auto
  have u: "\<not> isl ?upd" "ur_in_place_update (fst (projr ?upd))"
    "ur_new_resource_version (fst (projr ?upd)) = ''8''"
    by code_simp+
  then obtain res w where upd: "?upd = Inr (res, w)" "ur_in_place_update res" "ur_new_resource_version res = ''8''"
    by (cases ?upd) auto
  have nums: "parse_uint64 (ur_new_resource_version res) = Some 8" "parse_uint64 (pod_rv running_pod) = Some 7"
    by (simp_all add: upd(3) parse_uint64_def is_digit_def digits_val_def digit_val_def running_pod_def sample_pod_def)
  have "numeric_versions (rv_exps sample_sys)"
    by (simp add: numeric_versions_def sample_sys_def NewResourceVersionExpectation_def)
  from run updated_pod_is_awaited [OF run upd(1,2) nums(1) this nums(2), of 5 6] show ?thesis by auto
qed

end
