(* ===== verification/Status_Updater.thy ===== *)
theory Status_Updater
  imports Scale_Diff Sample_Cluster
begin

text \<open>
  \<open>internal/status/inplace_status.go\<close>: the counts of the status, when it is written, and the write.
\<close>

section \<open>Definitions\<close>

definition count_status :: "pod_lib \<Rightarrow> time \<Rightarrow> inplaceu \<Rightarrow> inplaceu_status \<Rightarrow> pod \<Rightarrow> inplaceu_status" where
  "count_status L now iu newStatus p =
     (let st = newStatus\<lparr>st_replicas := st_replicas newStatus + 1\<rparr>;
          st = (if IsRunning p then st\<lparr>st_ready_replicas := st_ready_replicas st + 1\<rparr> else st);
          st = (if IsPodAvailable L now (sp_min_ready_seconds (iu_spec iu)) p
                then st\<lparr>st_available_replicas := st_available_replicas st + 1\<rparr> else st)
      in if EqualToRevisionHash (pod_labels p) (st_update_revision st)
         then st\<lparr>st_updated_replicas := st_updated_replicas st + 1\<rparr> else st)"

text \<open>
  The counters are \<open>int32\<close>.  The second operand of the condition, which dereferences
  \<open>Spec.Replicas\<close>, is evaluated only when the first holds.
\<close>

definition calculateStatus ::
  "pod_lib \<Rightarrow> time \<Rightarrow> inplaceu \<Rightarrow> inplaceu_status \<Rightarrow> pod list \<Rightarrow> inplaceu_status may_panic" where
  "calculateStatus L now iu newStatus pods =
     (let st = foldl (count_status L now iu) newStatus pods
      in if st_updated_replicas st = st_replicas st
         then bindP (deref (sp_replicas (iu_spec iu))) (\<lambda>replicas.
                Inr (if st_replicas st = replicas
                     then st\<lparr>st_current_revision := st_update_revision st\<rparr> else st))
         else Inr st)"

definition inconsistentStatus :: "inplaceu \<Rightarrow> inplaceu_status \<Rightarrow> bool" where
  "inconsistentStatus iu newStatus =
     (let oldStatus = iu_status iu
      in sint (st_observed_generation newStatus) > sint (st_observed_generation oldStatus) \<or>
         st_replicas newStatus \<noteq> st_replicas oldStatus \<or>
         st_ready_replicas newStatus \<noteq> st_ready_replicas oldStatus \<or>
         st_available_replicas newStatus \<noteq> st_available_replicas oldStatus \<or>
         st_updated_replicas newStatus \<noteq> st_updated_replicas oldStatus \<or>
         st_update_revision newStatus \<noteq> st_update_revision oldStatus \<or>
         st_current_revision newStatus \<noteq> st_current_revision oldStatus)"

definition status_attempt :: "'w api \<Rightarrow> inplaceu \<Rightarrow> inplaceu_status \<Rightarrow> 'w attempt" where
  "status_attempt A iu newStatus w =
     (case get_iu A (iu_namespace iu) (iu_name iu) w of
        (Inl e, w) \<Rightarrow> (Some e, w)
      | (Inr clone, w) \<Rightarrow> update_iu_status A (clone\<lparr>iu_status := newStatus\<rparr>) w)"

definition updateStatus ::
  "'w api \<Rightarrow> ('w attempt \<Rightarrow> 'w attempt) \<Rightarrow> inplaceu \<Rightarrow> inplaceu_status \<Rightarrow> 'w \<Rightarrow> go_error option \<times> 'w" where
  "updateStatus A retry iu newStatus w = retry (status_attempt A iu newStatus) w"

text \<open>The status is changed in place: the result carries it for the caller.\<close>

definition UpdateInplaceuSetStatus ::
  "pod_lib \<Rightarrow> 'w api \<Rightarrow> ('w attempt \<Rightarrow> 'w attempt) \<Rightarrow> inplaceu \<Rightarrow> inplaceu_status \<Rightarrow> pod list \<Rightarrow> 'w sys \<Rightarrow>
     ((go_error option \<times> inplaceu_status) \<times> 'w sys) may_panic" where
  "UpdateInplaceuSetStatus L A retry iu newStatus pods s =
     (case on_world (clock_now A) s of
        (now, s) \<Rightarrow>
          bindP (calculateStatus L now iu newStatus pods) (\<lambda>st.
            if \<not> inconsistentStatus iu st then Inr ((None, st), s)
            else case on_world (updateStatus A retry iu st) s of
                   (err, s) \<Rightarrow> Inr ((err, st), s)))"

section \<open>The counts\<close>

lemma count_status_fold:
  "foldl (count_status L now iu) st pods =
     st\<lparr>st_replicas := st_replicas st + of_int (int (length pods)),
        st_ready_replicas := st_ready_replicas st + of_int (count_where IsRunning pods),
        st_available_replicas := st_available_replicas st +
          of_int (count_where (IsPodAvailable L now (sp_min_ready_seconds (iu_spec iu))) pods),
        st_updated_replicas := st_updated_replicas st +
          of_int (count_where (is_pod_update (st_update_revision st)) pods)\<rparr>"
  by (induction pods arbitrary: st)
    (auto simp: count_status_def Let_def is_pod_update_def algebra_simps)

text \<open>A status as \<open>Reconcile\<close> makes it: all counters zero.\<close>

definition fresh_status :: "inplaceu_status \<Rightarrow> bool" where
  "fresh_status st \<longleftrightarrow> st_replicas st = 0 \<and> st_ready_replicas st = 0 \<and> st_available_replicas st = 0 \<and>
     st_updated_replicas st = 0"

lemma sint_of_int_small:
  "0 \<le> k \<Longrightarrow> k < 2 ^ 31 \<Longrightarrow> sint (of_int k :: int32) = k"
  by (simp add: sint_sbintrunc' signed_take_bit_int_eq_self)

lemma of_int_eq_small:
  assumes "0 \<le> j" "j \<le> k" "k < 2 ^ 31"
  shows "(of_int j :: int32) = of_int k \<longleftrightarrow> j = k"
proof
  assume "(of_int j :: int32) = of_int k"
  then have "sint (of_int j :: int32) = sint (of_int k :: int32)" by simp
  with assms show "j = k" by (simp only: sint_of_int_small)
qed simp

section \<open>Properties\<close>



text \<open>
  When \<open>UpdateInplaceuSetStatus\<close> reports success, either the status it computed agrees with the
  one of the resource in every field it compares and nothing was written, or the last call was an
  accepted status update of a fresh copy of the resource, which changed its status to the one
  computed and nothing else; with that status stored, the same computation writes nothing.
\<close>

theorem status_update_writes_computed_status:
  assumes "UpdateInplaceuSetStatus L A retry iu newStatus pods s = Inr ((None, st), s')"
    and "retry_contract retry"
  shows "calculateStatus L (fst (clock_now A (world s))) iu newStatus pods = Inr st \<and>
    (if inconsistentStatus iu st
     then \<exists>clone w1 w2. get_iu A (iu_namespace iu) (iu_name iu) w1 = (Inr clone, w2) \<and>
       update_iu_status A (clone\<lparr>iu_status := st\<rparr>) w2 = (None, world s')
     else world s' = snd (clock_now A (world s))) \<and>
    \<not> inconsistentStatus (iu\<lparr>iu_status := st\<rparr>) st"
proof -
  obtain now s1 where clock: "on_world (clock_now A) s = (now, s1)" by fastforce
  have now: "now = fst (clock_now A (world s))" and s1: "world s1 = snd (clock_now A (world s))"
    using on_world_frame(5,6) [of "clock_now A" s] clock by simp_all
  have calc: "calculateStatus L now iu newStatus pods = Inr st"
    using assms(1) clock
    by (cases "calculateStatus L now iu newStatus pods")
      (auto simp: UpdateInplaceuSetStatus_def split: if_splits prod.splits)
  have "if inconsistentStatus iu st
     then \<exists>clone w1 w2. get_iu A (iu_namespace iu) (iu_name iu) w1 = (Inr clone, w2) \<and>
       update_iu_status A (clone\<lparr>iu_status := st\<rparr>) w2 = (None, world s')
     else world s' = snd (clock_now A (world s))"
  proof (cases "inconsistentStatus iu st")
    case False
    with assms(1) clock calc s1 show ?thesis by (simp add: UpdateInplaceuSetStatus_def)
  next
    case True
    obtain err s2 where upd: "on_world (updateStatus A retry iu st) s1 = (err, s2)" by fastforce
    with assms(1) clock calc True have "err = None" "s2 = s'" by (simp_all add: UpdateInplaceuSetStatus_def)
    with upd have run: "retry (status_attempt A iu st) (world s1) = (None, world s')"
      by (auto simp: on_world_def updateStatus_def split: prod.splits)
    have "None \<noteq> (None :: go_error option) \<or> (\<exists>clone w1 w2.
        get_iu A (iu_namespace iu) (iu_name iu) w1 = (Inr clone, w2) \<and>
        update_iu_status A (clone\<lparr>iu_status := st\<rparr>) w2 = (None, world s'))"
    proof (rule retry_rule [where I = "\<lambda>_. True" and Q = "\<lambda>r w'. r \<noteq> None \<or> (\<exists>clone w1 w2.
        get_iu A (iu_namespace iu) (iu_name iu) w1 = (Inr clone, w2) \<and>
        update_iu_status A (clone\<lparr>iu_status := st\<rparr>) w2 = (None, w'))", OF assms(2) _ _ TrueI run])
      fix w r w'
      assume "status_attempt A iu st w = (r, w')"
      then show "r \<noteq> None \<or> (\<exists>clone w1 w2.
          get_iu A (iu_namespace iu) (iu_name iu) w1 = (Inr clone, w2) \<and>
          update_iu_status A (clone\<lparr>iu_status := st\<rparr>) w2 = (None, w'))"
        by (cases r) (auto simp: status_attempt_def split: prod.splits sum.splits)
    qed simp
    with True show ?thesis by simp
  qed
  with calc now show ?thesis by (simp add: inconsistentStatus_def)
qed

theorem status_update_writes_computed_status_witness:
  "\<exists>st s'. UpdateInplaceuSetStatus sample_pod_lib sample_api (attempts 3) (sample_iu (Some 1) None)
      sample_status [updated_pod ''a'' PodRunning] sample_sys = Inr ((None, st), s') \<and>
    \<not> inconsistentStatus ((sample_iu (Some 1) None)\<lparr>iu_status := st\<rparr>) st"
proof -
  let ?run = "UpdateInplaceuSetStatus sample_pod_lib sample_api (attempts 3) (sample_iu (Some 1) None)
      sample_status [updated_pod ''a'' PodRunning] sample_sys"
  have "\<not> isl ?run" "fst (fst (projr ?run)) = None" by code_simp+
  then obtain st s' where run: "?run = Inr ((None, st), s')" by (cases ?run) auto
  from run status_update_writes_computed_status [OF run attempts_contract] show ?thesis by blast
qed

end
