(* ===== verification/Ref_Manager.thy ===== *)
theory Ref_Manager
  imports Sample_Cluster Pod_Groups
begin

text \<open>
  \<open>internal/utils/refmgr/refmgr.go\<close>: which pods the controller claims, adopting orphans that match
  its selector and releasing pods of its own that no longer do.
\<close>

section \<open>Definitions\<close>

text \<open>
  The manager: the owner as it was read, its selector, whether a scheme is set, and \<open>sync.Once\<close> with
  the error it stored (\<open>None\<close>: not run yet).
\<close>

record ref_manager =
  rm_owner :: inplaceu
  rm_selector :: selector
  rm_has_schema :: bool
  rm_can_adopt :: "go_error option option"

text \<open>
  The scheme and \<open>controllerutil\<close>: the error that \<open>ObjectKinds\<close> or \<open>New\<close> report for the owner's type,
  and \<open>SetControllerReference\<close> on a pod.
\<close>

record ref_lib =
  scheme_error :: "go_error option"
  set_controller_reference :: "inplaceu \<Rightarrow> pod \<Rightarrow> go_error + pod"

definition RefManager_New ::
  "meta_lib \<Rightarrow> label_selector option \<Rightarrow> inplaceu \<Rightarrow> bool \<Rightarrow> go_error + ref_manager" where
  "RefManager_New M sel owner has_schema =
     (case as_selector M sel of
        Inl e \<Rightarrow> Inl e
      | Inr s \<Rightarrow> Inr \<lparr>rm_owner = owner, rm_selector = s, rm_has_schema = has_schema, rm_can_adopt = None\<rparr>)"

definition getOwner :: "ref_lib \<Rightarrow> 'w api \<Rightarrow> inplaceu \<Rightarrow> 'w \<Rightarrow> (go_error + inplaceu) \<times> 'w" where
  "getOwner R A owner w =
     (case scheme_error R of
        Some e \<Rightarrow> (Inl e, w)
      | None \<Rightarrow> get_iu A (iu_namespace owner) (iu_name owner) w)"

definition canAdopt :: "ref_lib \<Rightarrow> 'w api \<Rightarrow> inplaceu \<Rightarrow> 'w \<Rightarrow> go_error option \<times> 'w" where
  "canAdopt R A owner w =
     (case getOwner R A owner w of
        (Inl e, w) \<Rightarrow> (Some e, w)
      | (Inr fresh, w) \<Rightarrow>
          (if iu_uid fresh \<noteq> iu_uid owner then (Some (Errorf ''original owner is gone''), w)
           else if iu_deletion fresh \<noteq> None then (Some (Errorf ''has just been deleted''), w)
           else (None, w)))"

definition canAdoptOnce ::
  "ref_lib \<Rightarrow> 'w api \<Rightarrow> ref_manager \<Rightarrow> 'w \<Rightarrow> go_error option \<times> ref_manager \<times> 'w" where
  "canAdoptOnce R A mgr w =
     (case rm_can_adopt mgr of
        Some r \<Rightarrow> (r, mgr, w)
      | None \<Rightarrow> (case canAdopt R A (rm_owner mgr) w of
          (r, w) \<Rightarrow> (r, mgr\<lparr>rm_can_adopt := Some r\<rparr>, w)))"

text \<open>
  Every error of \<open>adopt\<close> and \<open>release\<close> is formatted with \<open>%v\<close>.  The pod is changed in place by
  \<open>SetControllerReference\<close> and by the server's answer, so the result carries it.
\<close>

definition adopt ::
  "ref_lib \<Rightarrow> 'w api \<Rightarrow> pod \<Rightarrow> ref_manager \<Rightarrow> 'w \<Rightarrow> (go_error option \<times> pod) \<times> ref_manager \<times> 'w" where
  "adopt R A obj mgr w =
     (case canAdoptOnce R A mgr w of
        (Some e, mgr, w) \<Rightarrow> ((Some (Formatted ''can't adopt Object'' e), obj), mgr, w)
      | (None, mgr, w) \<Rightarrow>
          (if \<not> rm_has_schema mgr then ((None, obj), mgr, w)
           else case set_controller_reference R (rm_owner mgr) obj of
             Inl e \<Rightarrow> ((Some (Formatted ''can't set Object owner reference'' e), obj), mgr, w)
           | Inr obj \<Rightarrow>
               (case update_pod A obj w of
                  (Inl e, w) \<Rightarrow> ((Some (Formatted ''can't update Object owner reference'' e), obj), mgr, w)
                | (Inr obj, w) \<Rightarrow> ((None, obj), mgr, w))))"

fun owner_index :: "string \<Rightarrow> owner_ref list \<Rightarrow> nat option" where
  "owner_index uid [] = None"
| "owner_index uid (r # rs) =
     (if or_uid r = uid then Some 0
      else case owner_index uid rs of None \<Rightarrow> None | Some i \<Rightarrow> Some (Suc i))"

definition release :: "'w api \<Rightarrow> pod \<Rightarrow> ref_manager \<Rightarrow> 'w \<Rightarrow> go_error option \<times> 'w" where
  "release A obj mgr w =
     (case owner_index (iu_uid (rm_owner mgr)) (pod_owners obj) of
        None \<Rightarrow> (None, w)
      | Some idx \<Rightarrow>
          (case update_pod A (obj\<lparr>pod_owners := take idx (pod_owners obj) @ drop (idx + 1) (pod_owners obj)\<rparr>) w of
             (Inl e, w) \<Rightarrow> (Some (Formatted ''can't remove Pod owner reference'' e), w)
           | (Inr _, w) \<Rightarrow> (None, w)))"

definition claimObject ::
  "meta_lib \<Rightarrow> ref_lib \<Rightarrow> 'w api \<Rightarrow> (pod \<Rightarrow> bool) \<Rightarrow> pod \<Rightarrow> ref_manager \<Rightarrow> 'w \<Rightarrow>
     ((bool \<times> go_error option) \<times> pod) \<times> ref_manager \<times> 'w" where
  "claimObject M R A match_obj obj mgr w =
     (case controller_of M (pod_owners obj) of
        Some controllerRef \<Rightarrow>
          (if or_uid controllerRef \<noteq> iu_uid (rm_owner mgr) then (((False, None), obj), mgr, w)
           else if match_obj obj then (((True, None), obj), mgr, w)
           else if iu_deletion (rm_owner mgr) \<noteq> None then (((False, None), obj), mgr, w)
           else case release A obj mgr w of
             (Some e, w) \<Rightarrow>
               (if is_not_found e then (((False, None), obj), mgr, w) else (((False, Some e), obj), mgr, w))
           | (None, w) \<Rightarrow> (((False, None), obj), mgr, w))
      | None \<Rightarrow>
          (if iu_deletion (rm_owner mgr) \<noteq> None \<or> \<not> match_obj obj then (((False, None), obj), mgr, w)
           else if pod_deletion obj \<noteq> None then (((False, None), obj), mgr, w)
           else case adopt R A obj mgr w of
             ((Some e, obj), mgr, w) \<Rightarrow>
               (if is_not_found e then (((False, None), obj), mgr, w) else (((False, Some e), obj), mgr, w))
           | ((None, obj), mgr, w) \<Rightarrow> (((True, None), obj), mgr, w)))"

fun claim_each ::
  "meta_lib \<Rightarrow> ref_lib \<Rightarrow> 'w api \<Rightarrow> (pod \<Rightarrow> bool) \<Rightarrow> pod list \<Rightarrow> pod list \<Rightarrow> go_error list \<Rightarrow> ref_manager \<Rightarrow> 'w \<Rightarrow>
     (pod list \<times> go_error list) \<times> ref_manager \<times> 'w" where
  "claim_each M R A match_obj [] claimObjs errlist mgr w = ((claimObjs, errlist), mgr, w)"
| "claim_each M R A match_obj (obj # objs) claimObjs errlist mgr w =
     (case claimObject M R A match_obj obj mgr w of
        (((ok, Some e), obj), mgr, w) \<Rightarrow> claim_each M R A match_obj objs claimObjs (errlist @ [e]) mgr w
      | (((ok, None), obj), mgr, w) \<Rightarrow>
          claim_each M R A match_obj objs (if ok then claimObjs @ [obj] else claimObjs) errlist mgr w)"

definition match_filters :: "meta_lib \<Rightarrow> ref_manager \<Rightarrow> (pod \<Rightarrow> bool) list \<Rightarrow> pod \<Rightarrow> bool" where
  "match_filters M mgr filters obj =
     (if \<not> selector_matches M (rm_selector mgr) (pod_labels obj) then False
      else list_all (\<lambda>f. f obj) filters)"

definition ClaimOwnedObjects ::
  "meta_lib \<Rightarrow> ref_lib \<Rightarrow> 'w api \<Rightarrow> pod list \<Rightarrow> (pod \<Rightarrow> bool) list \<Rightarrow> ref_manager \<Rightarrow> 'w \<Rightarrow>
     (pod list \<times> go_error option) \<times> ref_manager \<times> 'w" where
  "ClaimOwnedObjects M R A objs filters mgr w =
     (case claim_each M R A (match_filters M mgr filters) objs [] [] mgr w of
        ((claimObjs, errlist), mgr, w) \<Rightarrow> ((claimObjs, new_aggregate errlist), mgr, w))"

section \<open>Lemmas\<close>

text \<open>What one claim does, by the controller of the pod.\<close>

lemma owner_index_split:
  "owner_index uid rs = Some i \<Longrightarrow>
     i < length rs \<and> or_uid (rs ! i) = uid \<and> list_all (\<lambda>r. or_uid r \<noteq> uid) (take i rs)"
  by (induction rs arbitrary: i) (auto split: if_splits option.splits)

lemma owner_index_None: "owner_index uid rs = None \<longleftrightarrow> list_all (\<lambda>r. or_uid r \<noteq> uid) rs"
  by (induction rs) (auto split: option.splits)

definition wants_adoption :: "meta_lib \<Rightarrow> (pod \<Rightarrow> bool) \<Rightarrow> inplaceu \<Rightarrow> pod \<Rightarrow> bool" where
  "wants_adoption M match_obj owner obj \<longleftrightarrow>
     controller_of M (pod_owners obj) = None \<and> match_obj obj \<and> iu_deletion owner = None \<and> pod_deletion obj = None"

definition wants_release :: "meta_lib \<Rightarrow> (pod \<Rightarrow> bool) \<Rightarrow> inplaceu \<Rightarrow> pod \<Rightarrow> bool" where
  "wants_release M match_obj owner obj \<longleftrightarrow>
     (\<exists>r. controller_of M (pod_owners obj) = Some r \<and> or_uid r = iu_uid owner) \<and>
     \<not> match_obj obj \<and> iu_deletion owner = None"

definition is_owned :: "meta_lib \<Rightarrow> inplaceu \<Rightarrow> pod \<Rightarrow> bool" where
  "is_owned M owner obj \<longleftrightarrow>
     (\<exists>r. controller_of M (pod_owners obj) = Some r \<and> or_uid r = iu_uid owner)"

lemma formatted_not_found [simp]: "\<not> is_not_found (Formatted m e)"
  by (simp add: is_not_found_def)

lemma claimObject_quiet:
  assumes "\<not> wants_adoption M match_obj (rm_owner mgr) obj" "\<not> wants_release M match_obj (rm_owner mgr) obj"
  shows "claimObject M R A match_obj obj mgr w =
    (((is_owned M (rm_owner mgr) obj \<and> match_obj obj, None), obj), mgr, w)"
  using assms
  by (auto simp: claimObject_def wants_adoption_def wants_release_def is_owned_def split: option.splits)

lemma claimObject_release:
  assumes "wants_release M match_obj (rm_owner mgr) obj"
  shows "claimObject M R A match_obj obj mgr w =
    (case release A obj mgr w of (err, w') \<Rightarrow> (((False, err), obj), mgr, w'))"
proof -
  have nf: "\<not> is_not_found e" if "release A obj mgr w = (Some e, w')" for e w'
    using that by (auto simp: release_def split: option.splits prod.splits sum.splits)
  show ?thesis
    using assms nf
    by (cases "release A obj mgr w"; cases "fst (release A obj mgr w)")
      (auto simp: claimObject_def wants_release_def)
qed

lemma claimObject_adopt:
  assumes "wants_adoption M match_obj (rm_owner mgr) obj"
  shows "claimObject M R A match_obj obj mgr w =
    (case adopt R A obj mgr w of ((err, obj'), mgr', w') \<Rightarrow> (((err = None, err), obj'), mgr', w'))"
proof -
  have nf: "\<not> is_not_found e" if "adopt R A obj mgr w = ((Some e, obj'), mgr', w')" for e obj' mgr' w'
    using that by (auto simp: adopt_def split: option.splits prod.splits sum.splits if_splits)
  obtain err obj' mgr' w' where a: "adopt R A obj mgr w = ((err, obj'), mgr', w')" by (metis prod.collapse)
  show ?thesis
    using assms nf a by (cases err) (auto simp: claimObject_def wants_adoption_def)
qed

lemma adopt_owner: "adopt R A obj mgr w = (r, mgr', w') \<Longrightarrow> rm_owner mgr' = rm_owner mgr \<and> rm_selector mgr' = rm_selector mgr"
  by (auto simp: adopt_def canAdoptOnce_def split: option.splits prod.splits sum.splits if_splits)

lemma claimObject_owner:
  assumes "claimObject M R A match_obj obj mgr w = (r, mgr', w')"
  shows "rm_owner mgr' = rm_owner mgr \<and> rm_selector mgr' = rm_selector mgr"
proof (cases "wants_adoption M match_obj (rm_owner mgr) obj")
  case True
  then show ?thesis using assms adopt_owner [of R A obj mgr w] by (auto simp: claimObject_adopt split: prod.splits)
next
  case False
  then show ?thesis using assms
    by (cases "wants_release M match_obj (rm_owner mgr) obj")
      (auto simp: claimObject_quiet claimObject_release split: prod.splits)
qed

text \<open>What the library and the server promise about the writes of \<open>adopt\<close>.\<close>

definition adoption_contract :: "meta_lib \<Rightarrow> ref_lib \<Rightarrow> 'w api \<Rightarrow> inplaceu \<Rightarrow> bool" where
  "adoption_contract M R A owner \<longleftrightarrow>
     (\<forall>p p'. set_controller_reference R owner p = Inr p' \<longrightarrow>
        is_owned M owner p' \<and> pod_labels p' = pod_labels p) \<and>
     (\<forall>p w p' w'. update_pod A p w = (Inr p', w') \<longrightarrow>
        pod_owners p' = pod_owners p \<and> pod_labels p' = pod_labels p)"

lemma adopt_owned:
  assumes "adoption_contract M R A (rm_owner mgr)" "rm_has_schema mgr"
    and "adopt R A obj mgr w = ((None, obj'), mgr', w')"
  shows "is_owned M (rm_owner mgr) obj' \<and> pod_labels obj' = pod_labels obj"
proof -
  obtain c mgr1 w1 where can: "canAdoptOnce R A mgr w = (c, mgr1, w1)" by (metis prod_cases3)
  have mgr1: "rm_owner mgr1 = rm_owner mgr" "rm_has_schema mgr1 = rm_has_schema mgr"
    using can by (auto simp: canAdoptOnce_def split: option.splits prod.splits)
  from assms(3) can have "c = None" by (cases c) (auto simp: adopt_def)
  with assms(2,3) can mgr1 obtain p where p: "set_controller_reference R (rm_owner mgr) obj = Inr p"
    "update_pod A p w1 = (Inr obj', w')"
    by (cases "set_controller_reference R (rm_owner mgr) obj")
      (auto simp: adopt_def split: prod.splits sum.splits)
  with assms(1) show ?thesis unfolding adoption_contract_def is_owned_def by metis
qed

lemma claimObject_claims:
  assumes "claimObject M R A match_obj obj mgr w = (((ok, err), obj'), mgr', w')"
    and "adoption_contract M R A (rm_owner mgr)" "rm_has_schema mgr"
    and "\<And>p q. pod_labels p = pod_labels q \<Longrightarrow> match_obj p = match_obj q"
  shows "(ok \<longrightarrow> is_owned M (rm_owner mgr) obj' \<and> match_obj obj') \<and>
    (is_owned M (rm_owner mgr) obj \<and> match_obj obj \<longrightarrow> ok \<and> err = None \<and> obj' = obj) \<and>
    rm_has_schema mgr'"
proof -
  consider (adopt) "wants_adoption M match_obj (rm_owner mgr) obj"
    | (release) "wants_release M match_obj (rm_owner mgr) obj"
    | (quiet) "\<not> wants_adoption M match_obj (rm_owner mgr) obj" "\<not> wants_release M match_obj (rm_owner mgr) obj"
    by blast
  then show ?thesis
  proof cases
    case adopt
    obtain e o1 m1 w1 where a: "adopt R A obj mgr w = ((e, o1), m1, w1)" by (metis prod.collapse)
    with adopt assms(1) have r: "ok = (e = None)" "err = e" "obj' = o1" "mgr' = m1" 
      by (auto simp: claimObject_adopt)
    have sch: "rm_has_schema m1"
      using a assms(3) by (auto simp: adopt_def canAdoptOnce_def split: option.splits prod.splits sum.splits if_splits)
    have not_owned: "\<not> is_owned M (rm_owner mgr) obj" and m: "match_obj obj"
      using adopt by (auto simp: wants_adoption_def is_owned_def)
    show ?thesis
      using adopt_owned [OF assms(2,3), of obj w o1 m1 w1] a r not_owned m assms(4) [of o1 obj] sch by auto
  next
    case release
    with assms(1,3) show ?thesis
      by (auto simp: claimObject_release wants_release_def is_owned_def split: prod.splits)
  next
    case quiet
    with assms(1,3) show ?thesis by (auto simp: claimObject_quiet)
  qed
qed

lemma claim_each_claims:
  assumes "claim_each M R A match_obj objs claimed errs mgr w = ((claimed', errs'), mgr', w')"
    and "adoption_contract M R A owner" "rm_owner mgr = owner" "rm_has_schema mgr"
    and "\<And>p q. pod_labels p = pod_labels q \<Longrightarrow> match_obj p = match_obj q"
    and "list_all (\<lambda>p. is_owned M owner p \<and> match_obj p) claimed"
  shows "list_all (\<lambda>p. is_owned M owner p \<and> match_obj p) claimed' \<and> set claimed \<subseteq> set claimed' \<and>
    {p \<in> set objs. is_owned M owner p \<and> match_obj p} \<subseteq> set claimed'"
  using assms(1,3,4,6)
proof (induction objs arbitrary: claimed errs mgr w)
  case Nil
  then show ?case by simp
next
  case (Cons obj objs)
  obtain ok err obj' m1 w1 where one: "claimObject M R A match_obj obj mgr w = (((ok, err), obj'), m1, w1)"
    by (metis prod.collapse)
  note c = claimObject_claims [OF one _ Cons.prems(3) assms(5), unfolded Cons.prems(2), OF assms(2)]
  have owner: "rm_owner m1 = owner" using claimObject_owner [OF one] Cons.prems(2) by simp
  let ?claimed = "if err = None \<and> ok then claimed @ [obj'] else claimed"
  let ?errs = "case err of None \<Rightarrow> errs | Some e \<Rightarrow> errs @ [e]"
  have rest: "claim_each M R A match_obj objs ?claimed ?errs m1 w1 = ((claimed', errs'), mgr', w')"
    using Cons.prems(1) one by (cases err) auto
  have good: "list_all (\<lambda>p. is_owned M owner p \<and> match_obj p) ?claimed"
    using Cons.prems(4) c by auto
  from c have "rm_has_schema m1" by blast
  from Cons.IH [OF rest owner this good] c show ?case by (auto split: if_splits)
qed

lemma claim_each_deleting:
  assumes "iu_deletion (rm_owner mgr) \<noteq> None"
  shows "claim_each M R A match_obj objs claimed errs mgr w =
    ((claimed @ filter (\<lambda>p. is_owned M (rm_owner mgr) p \<and> match_obj p) objs, errs), mgr, w)"
proof (induction objs arbitrary: claimed)
  case Nil
  then show ?case by simp
next
  case (Cons obj objs)
  have "claimObject M R A match_obj obj mgr w =
      (((is_owned M (rm_owner mgr) obj \<and> match_obj obj, None), obj), mgr, w)"
    using assms by (intro claimObject_quiet) (auto simp: wants_adoption_def wants_release_def)
  with Cons show ?case by auto
qed

section \<open>A concrete instance\<close>

definition sample_ref_lib :: ref_lib where
  "sample_ref_lib = \<lparr>scheme_error = None,
     set_controller_reference = (\<lambda>iu p. Inr (p\<lparr>pod_owners := new_controller_ref sample_meta_lib iu # pod_owners p\<rparr>))\<rparr>"

definition sample_manager :: ref_manager where
  "sample_manager = \<lparr>rm_owner = sample_iu (Some 1) None, rm_selector = ''app=web'', rm_has_schema = True,
     rm_can_adopt = None\<rparr>"

definition app_pod :: "string \<Rightarrow> owner_ref list \<Rightarrow> pod" where
  "app_pod n owners = (sample_pod n PodRunning (Some [''app'' \<mapsto> ''web'']))\<lparr>pod_owners := owners\<rparr>"

lemma sample_adoption_contract: "adoption_contract sample_meta_lib sample_ref_lib sample_api (sample_iu r ru)"
  by (simp add: adoption_contract_def sample_ref_lib_def sample_meta_lib_def sample_api_def is_owned_def
      sample_owner_def sample_iu_def)

section \<open>Properties\<close>

text \<open>
  \<open>claimObject\<close> writes only in two cases: it adopts a pod without controller that matches and
  releases a pod of its own that does not, in both cases only while the resource (and, for adoption,
  the pod) is not being deleted.  Pods of other controllers are never claimed nor written.  Every error
  of the two writes is reported, also when the server says that the pod is gone.
\<close>

theorem claim_object_by_case:
  "claimObject M R A match_obj obj mgr w =
     (if wants_adoption M match_obj (rm_owner mgr) obj
      then case adopt R A obj mgr w of ((err, obj'), mgr', w') \<Rightarrow> (((err = None, err), obj'), mgr', w')
      else if wants_release M match_obj (rm_owner mgr) obj
      then case release A obj mgr w of (err, w') \<Rightarrow> (((False, err), obj), mgr, w')
      else (((is_owned M (rm_owner mgr) obj \<and> match_obj obj, None), obj), mgr, w))"
  by (simp add: claimObject_adopt claimObject_release claimObject_quiet)

text \<open>
  C25: The pods \<open>ClaimOwnedObjects\<close> returns are all controlled by the resource and match its selector,
  and every pod that was so before is among them: adoption makes a pod one's own, and nothing claimed
  is lost through the other pods' errors.
\<close>

theorem claimed_pods_are_ours:
  assumes "ClaimOwnedObjects M R A pods [] mgr w = ((claimed, err), mgr', w')"
    and "adoption_contract M R A (rm_owner mgr)" and "rm_has_schema mgr"
  shows "list_all (\<lambda>p. is_owned M (rm_owner mgr) p \<and> selector_matches M (rm_selector mgr) (pod_labels p)) claimed \<and>
    set (filter (\<lambda>p. is_owned M (rm_owner mgr) p \<and> selector_matches M (rm_selector mgr) (pod_labels p)) pods)
      \<subseteq> set claimed"
proof -
  have m: "match_filters M mgr [] p = selector_matches M (rm_selector mgr) (pod_labels p)" for p
    by (simp add: match_filters_def)
  obtain errs where run: "claim_each M R A (match_filters M mgr []) pods [] [] mgr w = ((claimed, errs), mgr', w')"
    using assms(1) by (auto simp: ClaimOwnedObjects_def split: prod.splits)
  from claim_each_claims [OF run assms(2) refl assms(3)] show ?thesis by (auto simp: m)
qed

theorem claimed_pods_are_ours_witness:
  "\<exists>claimed err mgr' w'. ClaimOwnedObjects sample_meta_lib sample_ref_lib sample_api
      [app_pod ''a'' [sample_owner], app_pod ''b'' []] [] sample_manager 0 = ((claimed, err), mgr', w') \<and>
    app_pod ''a'' [sample_owner] \<in> set claimed \<and> length claimed = 2"
proof -
  let ?run = "ClaimOwnedObjects sample_meta_lib sample_ref_lib sample_api
    [app_pod ''a'' [sample_owner], app_pod ''b'' []] [] sample_manager 0"
  obtain claimed err mgr' w' where run: "?run = ((claimed, err), mgr', w')" by (metis prod.collapse)
  have "length (fst (fst ?run)) = 2" by code_simp
  with run have len: "length claimed = 2" by simp
  have contract: "adoption_contract sample_meta_lib sample_ref_lib sample_api (rm_owner sample_manager)"
    and schema: "rm_has_schema sample_manager"
    using sample_adoption_contract by (simp_all add: sample_manager_def)
  have own: "is_owned sample_meta_lib (rm_owner sample_manager) (app_pod ''a'' [sample_owner])"
    by (simp add: is_owned_def sample_manager_def app_pod_def sample_owner_def sample_iu_def sample_meta_lib_def)
  have sel: "selector_matches sample_meta_lib (rm_selector sample_manager) (pod_labels (app_pod ''a'' [sample_owner]))"
    by code_simp
  from claimed_pods_are_ours [OF run contract schema] own sel
  have "app_pod ''a'' [sample_owner] \<in> set claimed" by auto
  with run len show ?thesis by blast
qed

text \<open>
  A resource that is being deleted neither adopts nor releases: \<open>ClaimOwnedObjects\<close> makes no call,
  reports no error and returns exactly the pods that are already its own and match.
\<close>

theorem deleting_owner_claims_without_writes:
  assumes "iu_deletion (rm_owner mgr) \<noteq> None"
  shows "ClaimOwnedObjects M R A pods filters mgr w =
    ((filter (\<lambda>p. is_owned M (rm_owner mgr) p \<and> match_filters M mgr filters p) pods, None), mgr, w)"
  by (simp add: ClaimOwnedObjects_def new_aggregate_def claim_each_deleting [OF assms])

theorem deleting_owner_claims_without_writes_witness:
  "ClaimOwnedObjects sample_meta_lib sample_ref_lib sample_api [app_pod ''b'' []] []
     (sample_manager\<lparr>rm_owner := (sample_iu (Some 1) None)\<lparr>iu_deletion := Some 9\<rparr>\<rparr>) 0 =
   (([], None), sample_manager\<lparr>rm_owner := (sample_iu (Some 1) None)\<lparr>iu_deletion := Some 9\<rparr>\<rparr>, 0 :: nat)"
  by (subst deleting_owner_claims_without_writes)
    (simp_all add: is_owned_def app_pod_def sample_meta_lib_def)

text \<open>The error of releasing a pod that no longer exists is not ignored.\<close>

lemma release_of_missing_pod_is_an_error:
  assumes "wants_release M match_obj (rm_owner mgr) obj"
    and "owner_index (iu_uid (rm_owner mgr)) (pod_owners obj) \<noteq> None"
    and "\<And>p. fst (update_pod A p w) = Inl (ApiError NotFound)"
  shows "fst (fst (claimObject M R A match_obj obj mgr w)) =
    (False, Some (Formatted ''can't remove Pod owner reference'' (ApiError NotFound)))"
proof -
  obtain idx where idx: "owner_index (iu_uid (rm_owner mgr)) (pod_owners obj) = Some idx"
    using assms(2) by blast
  let ?p = "obj\<lparr>pod_owners := take idx (pod_owners obj) @ drop (idx + 1) (pod_owners obj)\<rparr>"
  obtain w' where upd: "update_pod A ?p w = (Inl (ApiError NotFound), w')"
    using pair_eq [OF assms(3) [of ?p]] by blast
  have "release A obj mgr w =
      (Some (Formatted ''can't remove Pod owner reference'' (ApiError NotFound)), w')"
    unfolding release_def idx option.case upd prod.case sum.case ..
  then show ?thesis by (simp add: claimObject_release [OF assms(1)])
qed

end
