(* ===== verification/Revision_History.thy ===== *)
theory Revision_History
  imports Sample_Cluster
begin

text \<open>
  \<open>internal/utils/history/controller_history.go\<close>: the controller revisions in the API server, and
  the functions of Kubernetes' own history package that the controller calls.
\<close>

section \<open>The history package of Kubernetes\<close>

text \<open>
  \<open>HashControllerRevision\<close>, \<open>ControllerRevisionName\<close>, \<open>NewControllerRevision\<close> (with the kind of the
  resource), \<open>SortControllerRevisions\<close>, \<open>FindEqualRevisions\<close> and \<open>EqualRevision\<close>.
\<close>

record history_lib =
  hash_revision :: "revision \<Rightarrow> int32 option \<Rightarrow> string"
  revision_name :: "string \<Rightarrow> string \<Rightarrow> string"
  new_controller_revision :: "inplaceu \<Rightarrow> str_map \<Rightarrow> string \<Rightarrow> int64 \<Rightarrow> int32 option \<Rightarrow> go_error + revision"
  sort_revisions :: "revision list \<Rightarrow> revision list"
  find_equal_revisions :: "revision list \<Rightarrow> revision \<Rightarrow> revision list"
  equal_revision :: "revision \<Rightarrow> revision \<Rightarrow> bool"

text \<open>
  Documented behaviour: revisions are sorted by their number, and the equal ones are found in the
  order of the list.
\<close>

definition history_contract :: "history_lib \<Rightarrow> bool" where
  "history_contract H \<longleftrightarrow>
     (\<forall>rs. mset (sort_revisions H rs) = mset rs \<and>
        sorted_wrt (\<lambda>a b. sint (rev_revision a) \<le> sint (rev_revision b)) (sort_revisions H rs)) \<and>
     (\<forall>rs r. find_equal_revisions H rs r = filter (\<lambda>x. equal_revision H x r) rs)"

section \<open>Listing, creating and deleting\<close>

definition ListControllerRevisions ::
  "meta_lib \<Rightarrow> 'w api \<Rightarrow> inplaceu \<Rightarrow> selector \<Rightarrow> 'w \<Rightarrow> (go_error + revision list) \<times> 'w" where
  "ListControllerRevisions M A parent sel w =
     (case list_revisions A (iu_namespace parent) sel w of
        (Inl e, w) \<Rightarrow> (Inl e, w)
      | (Inr items, w) \<Rightarrow>
          (Inr (filter (\<lambda>r. case controller_of M (rev_owners r) of
                              None \<Rightarrow> True
                            | Some ref \<Rightarrow> or_uid ref = iu_uid parent) items), w))"

text \<open>
  The loop tries names with a growing collision count until one is free or holds the same data; it
  may go on for ever.  The count is shared with the caller.
\<close>

partial_function (option) create_loop ::
  "history_lib \<Rightarrow> 'w api \<Rightarrow> inplaceu \<Rightarrow> revision \<Rightarrow> int32 \<Rightarrow> 'w \<Rightarrow>
     (((go_error + revision) \<times> int32) \<times> 'w) option" where
  "create_loop H A parent revision collisionCount w =
     (let hash = hash_revision H revision (Some collisionCount);
          clone = revision\<lparr>rev_name := revision_name H (iu_name parent) hash\<rparr>;
          attempt = clone\<lparr>rev_namespace := iu_namespace parent\<rparr>
      in case create_revision A attempt w of
           (Inl e, w) \<Rightarrow>
             (if is_already_exists e
              then case get_revision A (iu_namespace parent) (rev_name clone) w of
                     (Inl e, w) \<Rightarrow> Some ((Inl e, collisionCount), w)
                   | (Inr exists, w) \<Rightarrow>
                       (if rev_data exists = rev_data clone then Some ((Inr exists, collisionCount), w)
                        else create_loop H A parent revision (collisionCount + 1) w)
              else Some ((Inl e, collisionCount), w))
         | (Inr stored, w) \<Rightarrow> Some ((Inr stored, collisionCount), w))"

declare create_loop.simps [code]

definition CreateControllerRevision ::
  "history_lib \<Rightarrow> 'w api \<Rightarrow> inplaceu \<Rightarrow> revision \<Rightarrow> int32 option \<Rightarrow> 'w \<Rightarrow>
     (((go_error + revision) \<times> int32 option) \<times> 'w) may_panic" where
  "CreateControllerRevision H A parent revision collisionCount w =
     (case collisionCount of
        None \<Rightarrow> Inr ((Inl (Errorf ''collisionCount should not be nil''), None), w)
      | Some c \<Rightarrow>
          bindP (returns (create_loop H A parent revision c w)) (\<lambda>((r, c), w). Inr ((r, Some c), w)))"

definition DeleteControllerRevision :: "'w api \<Rightarrow> revision \<Rightarrow> 'w \<Rightarrow> go_error option \<times> 'w" where
  "DeleteControllerRevision A revision w = delete_revision A revision w"

section \<open>Updates\<close>

text \<open>
  The three updates share their shape: write the clone; on failure read it again, and keep what was
  read for the next attempt.
\<close>

definition write_clone :: "'w api \<Rightarrow> string \<Rightarrow> string \<Rightarrow> revision \<Rightarrow> 'w \<Rightarrow> go_error option \<times> (revision \<times> 'w)" where
  "write_clone A ns n clone w =
     (case update_revision A clone w of
        (Inr stored, w) \<Rightarrow> (None, (stored, w))
      | (Inl updateErr, w) \<Rightarrow>
          (case get_revision A ns n w of
             (Inr got, w) \<Rightarrow> (Some updateErr, (got, w))
           | (Inl _, w) \<Rightarrow> (Some updateErr, (clone, w))))"

definition renumber_attempt :: "'w api \<Rightarrow> string \<Rightarrow> string \<Rightarrow> int64 \<Rightarrow> (revision \<times> 'w) attempt" where
  "renumber_attempt A ns n newRevision = (\<lambda>(clone, w).
     if rev_revision clone = newRevision then (None, (clone, w))
     else write_clone A ns n (clone\<lparr>rev_revision := newRevision\<rparr>) w)"

definition UpdateControllerRevision ::
  "'w api \<Rightarrow> ((revision \<times> 'w) attempt \<Rightarrow> (revision \<times> 'w) attempt) \<Rightarrow> revision \<Rightarrow> int64 \<Rightarrow> 'w \<Rightarrow>
     (revision \<times> go_error option) \<times> 'w" where
  "UpdateControllerRevision A retry revision newRevision w =
     (case retry (renumber_attempt A (rev_namespace revision) (rev_name revision) newRevision) (revision, w) of
        (err, (clone, w)) \<Rightarrow> ((clone, err), w))"

definition adopt_attempt ::
  "meta_lib \<Rightarrow> 'w api \<Rightarrow> string \<Rightarrow> string \<Rightarrow> inplaceu \<Rightarrow> string \<Rightarrow> string \<Rightarrow> (revision \<times> 'w) attempt" where
  "adopt_attempt M A ns n parent kind_version kind = (\<lambda>(clone, w).
     if controller_of M (rev_owners clone) \<noteq> None
     then (Some (Errorf ''attempt to adopt revision owned by another controller''), (clone, w))
     else write_clone A ns n
       (clone\<lparr>rev_owners := rev_owners clone @
         [\<lparr>or_api_version = kind_version, or_kind = kind, or_name = iu_name parent,
           or_uid = iu_uid parent, or_controller = Some True, or_block_deletion = Some True\<rparr>]\<rparr>) w)"

definition AdoptControllerRevision ::
  "meta_lib \<Rightarrow> 'w api \<Rightarrow> ((revision \<times> 'w) attempt \<Rightarrow> (revision \<times> 'w) attempt) \<Rightarrow> inplaceu \<Rightarrow> string \<Rightarrow> string \<Rightarrow>
     revision \<Rightarrow> 'w \<Rightarrow> (go_error + revision) \<times> 'w" where
  "AdoptControllerRevision M A retry parent kind_version kind revision w =
     (case retry (adopt_attempt M A (rev_namespace revision) (rev_name revision) parent kind_version kind)
             (revision, w) of
        (Some e, (clone, w)) \<Rightarrow> (Inl e, w)
      | (None, (clone, w)) \<Rightarrow> (Inr clone, w))"

definition release_attempt ::
  "meta_lib \<Rightarrow> 'w api \<Rightarrow> string \<Rightarrow> string \<Rightarrow> inplaceu \<Rightarrow> (revision \<times> 'w) attempt" where
  "release_attempt M A ns n parent = (\<lambda>(clone, w).
     if controller_of M (rev_owners clone) \<noteq> None
     then (Some (Errorf ''attempt to adopt revision owned by another controller''), (clone, w))
     else write_clone A ns n
       (clone\<lparr>rev_owners := filter (\<lambda>o'. or_uid o' \<noteq> iu_uid parent) (rev_owners clone)\<rparr>) w)"

text \<open>\<open>None\<close> is the nil revision that is returned with a nil error.\<close>

definition ReleaseControllerRevision ::
  "meta_lib \<Rightarrow> 'w api \<Rightarrow> ((revision \<times> 'w) attempt \<Rightarrow> (revision \<times> 'w) attempt) \<Rightarrow> inplaceu \<Rightarrow> revision \<Rightarrow> 'w \<Rightarrow>
     (go_error + revision option) \<times> 'w" where
  "ReleaseControllerRevision M A retry parent revision w =
     (case retry (release_attempt M A (rev_namespace revision) (rev_name revision) parent) (revision, w) of
        (Some e, (clone, w)) \<Rightarrow>
          (if is_not_found e then (Inr None, w) else if is_invalid e then (Inr None, w) else (Inl e, w))
      | (None, (clone, w)) \<Rightarrow> (Inr (Some clone), w))"

section \<open>The creation loop\<close>

text \<open>The object that the loop tries to create at a collision count.\<close>

definition candidate :: "history_lib \<Rightarrow> inplaceu \<Rightarrow> revision \<Rightarrow> int32 \<Rightarrow> revision" where
  "candidate H parent revision c =
     revision\<lparr>rev_name := revision_name H (iu_name parent) (hash_revision H revision (Some c)),
       rev_namespace := iu_namespace parent\<rparr>"

lemma candidate_fields [simp]:
  "rev_data (candidate H parent revision c) = rev_data revision"
  "rev_name (candidate H parent revision c) =
     revision_name H (iu_name parent) (hash_revision H revision (Some c))"
  by (simp_all add: candidate_def)

lemma create_loop_step:
  "create_loop H A parent revision c w =
     (case create_revision A (candidate H parent revision c) w of
        (Inl e, w) \<Rightarrow>
          (if is_already_exists e
           then case get_revision A (iu_namespace parent) (rev_name (candidate H parent revision c)) w of
                  (Inl e, w) \<Rightarrow> Some ((Inl e, c), w)
                | (Inr exists, w) \<Rightarrow>
                    (if rev_data exists = rev_data revision then Some ((Inr exists, c), w)
                     else create_loop H A parent revision (c + 1) w)
           else Some ((Inl e, c), w))
      | (Inr stored, w) \<Rightarrow> Some ((Inr stored, c), w))"
  by (subst create_loop.simps) (simp add: candidate_def Let_def split: prod.split sum.split)

text \<open>What the server promises about the objects it returns.\<close>

definition revision_contract :: "'w api \<Rightarrow> bool" where
  "revision_contract A \<longleftrightarrow>
     (\<forall>r w r' w'. create_revision A r w = (Inr r', w') \<longrightarrow>
        rev_data r' = rev_data r \<and> rev_name r' = rev_name r) \<and>
     (\<forall>r w r' w'. update_revision A r w = (Inr r', w') \<longrightarrow> rev_revision r' = rev_revision r) \<and>
     (\<forall>ns n w r w'. get_revision A ns n w = (Inr r, w') \<longrightarrow> rev_name r = n)"

lemma revision_contractD:
  assumes "revision_contract A"
  shows "create_revision A r w = (Inr r', w') \<Longrightarrow> rev_data r' = rev_data r \<and> rev_name r' = rev_name r"
    and "update_revision A r w = (Inr r', w') \<Longrightarrow> rev_revision r' = rev_revision r"
    and "get_revision A ns n w = (Inr r, w') \<Longrightarrow> rev_name r = n"
  using assms unfolding revision_contract_def by metis+

definition loop_result :: "history_lib \<Rightarrow> inplaceu \<Rightarrow> revision \<Rightarrow> int32 \<Rightarrow> revision \<Rightarrow> int32 \<Rightarrow> bool" where
  "loop_result H parent revision c r c' \<longleftrightarrow>
     (\<exists>k. c' = c + of_nat k) \<and> rev_data r = rev_data revision \<and>
     rev_name r = rev_name (candidate H parent revision c')"

lemma loop_result_next: "loop_result H parent revision (c + 1) r c' \<Longrightarrow> loop_result H parent revision c r c'"
  unfolding loop_result_def by (metis add.assoc of_nat_Suc)

lemma loop_result_here:
  "rev_data r = rev_data revision \<Longrightarrow> rev_name r = rev_name (candidate H parent revision c) \<Longrightarrow>
     loop_result H parent revision c r c"
  unfolding loop_result_def by (auto intro: exI [of _ 0])

text \<open>One turn of the loop: it returns, or goes on with the next count.\<close>

lemma create_loop_cases:
  assumes "revision_contract A"
  shows "(\<exists>e w'. create_loop H A parent revision c w = Some ((Inl e, c), w')) \<or>
    (\<exists>r w'. create_loop H A parent revision c w = Some ((Inr r, c), w') \<and> loop_result H parent revision c r c) \<or>
    (\<exists>w' w1. create_loop H A parent revision c w = create_loop H A parent revision (c + 1) w' \<and>
       create_revision A (candidate H parent revision c) w = (Inl (ApiError AlreadyExists), w1))"
proof (cases "create_revision A (candidate H parent revision c) w")
  case (Pair res w1)
  show ?thesis
  proof (cases res)
    case (Inr stored)
    then have "loop_result H parent revision c stored c"
      using Pair revision_contractD(1) [OF assms, of "candidate H parent revision c" w stored w1]
      by (intro loop_result_here) simp_all
    with Inr Pair show ?thesis by (simp add: create_loop_step)
  next
    case (Inl e)
    show ?thesis
    proof (cases "is_already_exists e")
      case False
      with Inl Pair show ?thesis by (simp add: create_loop_step)
    next
      case exists: True
      obtain g w2 where g: "get_revision A (iu_namespace parent) (rev_name (candidate H parent revision c)) w1 = (g, w2)"
        by fastforce
      show ?thesis
      proof (cases g)
        case e2: (Inl e2)
        with exists Inl Pair g show ?thesis by (simp add: create_loop_step)
      next
        case got: (Inr x)
        show ?thesis
        proof (cases "rev_data x = rev_data revision")
          case True
          then have "loop_result H parent revision c x c"
            using revision_contractD(3) [OF assms] g got by (intro loop_result_here) simp_all
          with exists Inl Pair g got True show ?thesis by (simp add: create_loop_step)
        next
          case False
          with exists Inl Pair g got have
            "create_loop H A parent revision c w = create_loop H A parent revision (c + 1) w2"
            by (simp add: create_loop_step)
          moreover have "create_revision A (candidate H parent revision c) w = (Inl (ApiError AlreadyExists), w1)"
            using exists Inl Pair by (simp add: is_already_exists_def)
          ultimately show ?thesis by blast
        qed
      qed
    qed
  qed
qed

text \<open>The loop ends when some later name is free; then its result is as wanted.\<close>

lemma loop_stops:
  assumes "(\<exists>e w'. x = Some ((Inl e, c), w')) \<or> (\<exists>r w'. x = Some ((Inr r, c), w') \<and> P r c)"
  shows "\<exists>res c' w'. x = Some ((res, c'), w') \<and> (case res of Inl e \<Rightarrow> True | Inr r \<Rightarrow> P r c')"
  using assms by fastforce

lemma create_loop_total:
  assumes "revision_contract A"
    and "\<And>w. fst (create_revision A (candidate H parent revision (c + of_nat n)) w) \<noteq> Inl (ApiError AlreadyExists)"
  shows "\<exists>res c' w'. create_loop H A parent revision c w = Some ((res, c'), w') \<and>
    (case res of Inl e \<Rightarrow> True | Inr r \<Rightarrow> loop_result H parent revision c r c')"
  using assms(2)
proof (induction n arbitrary: c w)
  case 0
  have free: "create_revision A (candidate H parent revision c) w \<noteq> (Inl (ApiError AlreadyExists), w1)" for w1
    using 0 [of w] by (cases "create_revision A (candidate H parent revision c) w") simp
  then have "\<not> (\<exists>w' w1. create_loop H A parent revision c w = create_loop H A parent revision (c + 1) w' \<and>
      create_revision A (candidate H parent revision c) w = (Inl (ApiError AlreadyExists), w1))"
    by simp
  with create_loop_cases [OF assms(1), of H parent revision c w] show ?case
    by (intro loop_stops [where c = c and P = "loop_result H parent revision c"]) argo
next
  case (Suc n)
  have "c + of_nat (Suc n) = c + 1 + of_nat n" by simp
  note step = Suc.prems [unfolded this]
  show ?case
  proof (cases "\<exists>w'. create_loop H A parent revision c w = create_loop H A parent revision (c + 1) w'")
    case False
    then have "\<not> (\<exists>w' w1. create_loop H A parent revision c w = create_loop H A parent revision (c + 1) w' \<and>
        create_revision A (candidate H parent revision c) w = (Inl (ApiError AlreadyExists), w1))"
      by blast
    with create_loop_cases [OF assms(1), of H parent revision c w] show ?thesis
      by (intro loop_stops [where c = c and P = "loop_result H parent revision c"]) argo
  next
    case True
    then obtain w' where eq: "create_loop H A parent revision c w = create_loop H A parent revision (c + 1) w'" ..
    from Suc.IH [OF step] obtain res c' w'' where
      r: "create_loop H A parent revision (c + 1) w' = Some ((res, c'), w'')"
      and "case res of Inl e \<Rightarrow> True | Inr r \<Rightarrow> loop_result H parent revision (c + 1) r c'"
      by blast
    then have "case res of Inl e \<Rightarrow> True | Inr r \<Rightarrow> loop_result H parent revision c r c'"
      by (cases res) (simp_all add: loop_result_next)
    with r show ?thesis unfolding eq by blast
  qed
qed

text \<open>Whenever the loop returns a revision, it is as wanted.\<close>

lemma create_loop_result:
  fixes A :: "'a api"
  assumes "revision_contract A" and "create_loop H A parent revision c w = Some ((Inr r, c'), w')"
  shows "loop_result H parent revision c r c'"
proof -
  define P where "P = (\<lambda>H (A :: 'a api) parent revision c (w :: 'a) (x :: ((go_error + revision) \<times> int32) \<times> 'a).
    revision_contract A \<longrightarrow> (case fst (fst x) of Inl e \<Rightarrow> True | Inr r \<Rightarrow> loop_result H parent revision c r (snd (fst x))))"
  have "P H A parent revision c w ((Inr r, c'), w')"
  proof (rule create_loop.raw_induct [where P = P, OF _ assms(2)])
    fix loop H A parent revision c w y
    assume IH: "\<And>H A parent revision c w y. loop H A parent revision c w = Some y \<Longrightarrow> P H A parent revision c w y"
      and run: "(let hash = hash_revision H revision (Some c);
          clone = revision\<lparr>rev_name := revision_name H (iu_name parent) hash\<rparr>;
          attempt = clone\<lparr>rev_namespace := iu_namespace parent\<rparr>
      in case create_revision A attempt w of
           (Inl e, w) \<Rightarrow>
             (if is_already_exists e
              then case get_revision A (iu_namespace parent) (rev_name clone) w of
                     (Inl e, w) \<Rightarrow> Some ((Inl e, c), w)
                   | (Inr exists, w) \<Rightarrow>
                       (if rev_data exists = rev_data clone then Some ((Inr exists, c), w)
                        else loop H A parent revision (c + 1) w)
              else Some ((Inl e, c), w))
         | (Inr stored, w) \<Rightarrow> Some ((Inr stored, c), w)) = Some y"
    show "P H A parent revision c w y"
      unfolding P_def
    proof
      assume A: "revision_contract A"
      note d = revision_contractD [OF A]
      show "case fst (fst y) of Inl e \<Rightarrow> True | Inr r \<Rightarrow> loop_result H parent revision c r (snd (fst y))"
        using run
        by (auto simp: Let_def candidate_def is_already_exists_def split: prod.splits sum.splits if_splits
            intro!: loop_result_here dest!: d(1) d(3) IH [unfolded P_def, rule_format, OF _ A]
            dest: loop_result_next)
    qed
  qed
  with assms(1) show ?thesis by (simp add: P_def)
qed

text \<open>Revisions do not change their data.\<close>

definition data_contract :: "'w api \<Rightarrow> (string \<Rightarrow> string) \<Rightarrow> bool" where
  "data_contract A D \<longleftrightarrow>
     (\<forall>ns n w r w'. get_revision A ns n w = (Inr r, w') \<longrightarrow> rev_data r = D n) \<and>
     (\<forall>r w r' w'. update_revision A r w = (Inr r', w') \<longrightarrow> rev_data r' = rev_data r)"

lemma data_contractD:
  assumes "data_contract A D"
  shows "get_revision A ns n w = (Inr r, w') \<Longrightarrow> rev_data r = D n"
    and "update_revision A r w = (Inr r', w') \<Longrightarrow> rev_data r' = rev_data r"
  using assms unfolding data_contract_def by blast+

lemma updated_revision_keeps_data:
  assumes "data_contract A D" and "retry_contract retry" and "rev_data revision = D (rev_name revision)"
    and "UpdateControllerRevision A retry revision newRevision w = ((clone, err), w')"
  shows "rev_data clone = rev_data revision"
proof -
  let ?fn = "renumber_attempt A (rev_namespace revision) (rev_name revision) newRevision"
  have step: "rev_data (fst s') = rev_data revision"
    if "rev_data (fst s) = rev_data revision" "?fn s = (r, s')" for s r s'
    using that assms(3)
    by (cases s) (auto simp: renumber_attempt_def write_clone_def dest: data_contractD [OF assms(1)]
        split: if_splits prod.splits sum.splits)
  from assms(4) have run: "retry ?fn (revision, w) = (err, (clone, w'))"
    by (auto simp: UpdateControllerRevision_def split: prod.splits)
  have "rev_data (fst (clone, w')) = rev_data revision"
    by (rule retry_rule [where I = "\<lambda>s. rev_data (fst s) = rev_data revision"
          and Q = "\<lambda>_ s. rev_data (fst s) = rev_data revision", OF assms(2) _ _ _ run]) (use step in auto)
  then show ?thesis by simp
qed

text \<open>The number of a revision that is updated without error.\<close>

lemma updated_revision_number:
  assumes "revision_contract A" and "retry_contract retry"
    and "UpdateControllerRevision A retry revision newRevision w = ((clone, None), w')"
  shows "rev_revision clone = newRevision"
proof -
  from assms(3) have run: "retry (renumber_attempt A (rev_namespace revision) (rev_name revision) newRevision)
      (revision, w) = (None, (clone, w'))"
    by (auto simp: UpdateControllerRevision_def split: prod.splits)
  have "None \<noteq> (None :: go_error option) \<or> rev_revision (fst (clone, w')) = newRevision"
  proof (rule retry_rule [where I = "\<lambda>_. True" and Q = "\<lambda>r s. r \<noteq> None \<or> rev_revision (fst s) = newRevision",
        OF assms(2) _ _ TrueI run])
    fix s r s'
    assume "renumber_attempt A (rev_namespace revision) (rev_name revision) newRevision s = (r, s')"
    then show "r \<noteq> None \<or> rev_revision (fst s') = newRevision"
      by (cases s) (auto simp: renumber_attempt_def write_clone_def dest: revision_contractD(2) [OF assms(1)]
          split: if_splits prod.splits sum.splits)
  qed simp
  then show ?thesis by simp
qed

section \<open>A concrete history library\<close>

definition sample_history_lib :: history_lib where
  "sample_history_lib =
     \<lparr>hash_revision = (\<lambda>r c. rev_data r @ (if c = Some 0 then [] else ''x'')),
      revision_name = (\<lambda>n h. n @ ''-'' @ h),
      new_controller_revision = (\<lambda>iu lbls patch n c.
        Inr \<lparr>rev_name = [], rev_namespace = iu_namespace iu, rev_uid = [], rev_rv = [],
             rev_owners = [sample_owner], rev_labels = lbls, rev_annotations = None,
             rev_data = patch, rev_revision = n\<rparr>),
      sort_revisions = insertion_sort (\<lambda>a b. sint (rev_revision a) < sint (rev_revision b)),
      find_equal_revisions = (\<lambda>rs r. filter (\<lambda>x. rev_data x = rev_data r) rs),
      equal_revision = (\<lambda>a b. rev_data a = rev_data b)\<rparr>"

lemma sample_history_contract: "history_contract sample_history_lib"
proof -
  have weak: "strict_weak (\<lambda>a b. sint (rev_revision a) < sint (rev_revision b))"
    by (auto simp: strict_weak_def)
  have "sorted_wrt (\<lambda>a b. sint (rev_revision a) \<le> sint (rev_revision b))
      (insertion_sort (\<lambda>a b. sint (rev_revision a) < sint (rev_revision b)) rs)" for rs :: "revision list"
    using sort_contract_sorted [OF insertion_sort_contract weak, of rs] by (simp add: not_less)
  then show ?thesis
    by (simp add: history_contract_def sample_history_lib_def sort_contract_mset [OF insertion_sort_contract])
qed

section \<open>Properties\<close>



text \<open>
  A revision that \<open>UpdateControllerRevision\<close> returns without error carries the number asked for.
\<close>

theorem updated_revision_has_new_number:
  assumes "revision_contract A" and "retry_contract retry"
    and "UpdateControllerRevision A retry revision newRevision w = ((clone, None), w')"
  shows "rev_revision clone = newRevision"
  by (rule updated_revision_number [OF assms])

theorem updated_revision_has_new_number_witness:
  "\<exists>clone w'. UpdateControllerRevision sample_api (attempts 3) (sample_revision ''web-r1'' 1 ''d1'') 4 0
     = ((clone, None), w') \<and> rev_revision clone = 4"
proof -
  let ?run = "UpdateControllerRevision sample_api (attempts 3) (sample_revision ''web-r1'' 1 ''d1'') 4 0"
  have "snd (fst ?run) = None" by code_simp
  then obtain clone w' where run: "?run = ((clone, None), w')" by (metis prod.collapse)
  have "revision_contract sample_api" by (simp add: revision_contract_def sample_api_def sample_revision_def)
  from run updated_revision_has_new_number [OF this attempts_contract run] show ?thesis by blast
qed

text \<open>
  The number may never have reached the server: after a conflict, a failed read leaves the changed
  clone in place, and the next attempt finds nothing to do.
\<close>

lemma update_can_report_success_without_write:
  assumes "update_revision A (revision\<lparr>rev_revision := newRevision\<rparr>) w = (Inl (ApiError Conflict), w1)"
    and "get_revision A (rev_namespace revision) (rev_name revision) w1 = (Inl e, w2)"
    and "rev_revision revision \<noteq> newRevision"
  shows "UpdateControllerRevision A (attempts (Suc n)) revision newRevision w =
    ((revision\<lparr>rev_revision := newRevision\<rparr>, None), w2)"
proof -
  have "attempts n (renumber_attempt A ns nm newRevision) (revision\<lparr>rev_revision := newRevision\<rparr>, w2) =
      (None, (revision\<lparr>rev_revision := newRevision\<rparr>, w2))" for ns nm
    by (cases n) (simp_all add: renumber_attempt_def)
  moreover have "renumber_attempt A (rev_namespace revision) (rev_name revision) newRevision (revision, w) =
      (Some (ApiError Conflict), (revision\<lparr>rev_revision := newRevision\<rparr>, w2))"
    using assms by (simp add: renumber_attempt_def write_clone_def)
  ultimately show ?thesis by (simp add: UpdateControllerRevision_def is_conflict_def)
qed

end
