(* ===== verification/Revision_Control.thy ===== *)
theory Revision_Control
  imports Revision_History
begin

text \<open>
  \<open>internal/utils/revision/inplaceu_revision.go\<close>, with \<open>SetRevisionTemplate\<close> and
  \<open>ApplyRevisionPatch\<close> of \<open>internal/inplaceu_core/inplaceu_core.go\<close>: a revision records the pod
  template of a resource, and applying it restores the resource as it was.
\<close>

section \<open>Encoded objects\<close>

datatype json =
    JNull
  | JBool bool
  | JNumber string
  | JString string
  | JArray "json list"
  | JObject "(string \<times> json) list"

text \<open>
  \<^item> \<open>encode_iu\<close>: \<open>runtime.Encode\<close> with the codec of the scheme;
  \<^item> \<open>json_decode\<close>, \<open>json_encode\<close>: \<open>json.Unmarshal\<close> into a generic value (\<open>None\<close> for an error),
    \<open>json.Marshal\<close> of one;
  \<^item> \<open>strategic_merge_iu\<close>: \<open>strategicpatch.StrategicMergePatch\<close> on an encoded resource;
  \<^item> \<open>unmarshal_iu\<close>: \<open>json.Unmarshal\<close> into a resource.
\<close>

record codec_lib =
  encode_iu :: "inplaceu \<Rightarrow> go_error + string"
  json_decode :: "string \<Rightarrow> json option"
  json_encode :: "json \<Rightarrow> go_error + string"
  strategic_merge_iu :: "string \<Rightarrow> string \<Rightarrow> go_error + string"
  unmarshal_iu :: "string \<Rightarrow> go_error + inplaceu"

section \<open>Definitions\<close>

text \<open>\<open>v.(map[string]interface\{\})\<close> on what a map holds under a key, if anything.\<close>

definition as_object :: "json option \<Rightarrow> (string \<times> json) list may_panic" where
  "as_object v = (case v of Some (JObject kvs) \<Rightarrow> Inr kvs | _ \<Rightarrow> Inl FailedTypeAssertion)"

text \<open>Both maps are changed: the template is marked, and put into the revision spec.\<close>

definition SetRevisionTemplate ::
  "(string \<times> json) list \<Rightarrow> (string \<times> json) list \<Rightarrow> (string \<times> json) list" where
  "SetRevisionTemplate revisionSpec template =
     AList.update ''template'' (JObject (AList.update ''$patch'' (JString ''replace'') template)) revisionSpec"

definition ApplyRevisionPatch :: "codec_lib \<Rightarrow> string \<Rightarrow> go_error + inplaceu" where
  "ApplyRevisionPatch C patched = unmarshal_iu C patched"

definition getPatch :: "codec_lib \<Rightarrow> inplaceu \<Rightarrow> (go_error + string) may_panic" where
  "getPatch C iu =
     (case encode_iu C iu of
        Inl e \<Rightarrow> Inr (Inl e)
      | Inr str \<Rightarrow>
          (let raw = (case json_decode C str of Some (JObject kvs) \<Rightarrow> kvs | _ \<Rightarrow> [])
           in bindP (as_object (map_of raw ''spec'')) (\<lambda>spec.
              bindP (as_object (map_of spec ''template'')) (\<lambda>template.
                Inr (json_encode C (JObject [(''spec'', JObject (SetRevisionTemplate [] template))]))))))"

definition NewRevision ::
  "codec_lib \<Rightarrow> history_lib \<Rightarrow> inplaceu \<Rightarrow> int64 \<Rightarrow> int32 option \<Rightarrow> (go_error + revision) may_panic" where
  "NewRevision C H iu number collisionCount =
     bindP (getPatch C iu) (\<lambda>patch. case patch of
       Inl e \<Rightarrow> Inr (Inl e)
     | Inr patch \<Rightarrow>
         (case new_controller_revision H iu (tpl_labels (sp_template (iu_spec iu))) patch number collisionCount of
            Inl e \<Rightarrow> Inr (Inl e)
          | Inr cr \<Rightarrow>
              Inr (Inr (cr\<lparr>rev_annotations :=
                (case (ensure_map (rev_annotations cr), iu_annotations iu) of
                   (Some anns, Some own) \<Rightarrow> Some (anns ++ own)
                 | (anns, _) \<Rightarrow> anns)\<rparr>))))"

definition ApplyRevision :: "codec_lib \<Rightarrow> inplaceu \<Rightarrow> revision \<Rightarrow> go_error + inplaceu" where
  "ApplyRevision C iu revision =
     (case encode_iu C iu of
        Inl e \<Rightarrow> Inl e
      | Inr cloneBytes \<Rightarrow>
          (case strategic_merge_iu C cloneBytes (rev_data revision) of
             Inl e \<Rightarrow> Inl e
           | Inr patched \<Rightarrow> ApplyRevisionPatch C patched))"

section \<open>Lemmas\<close>

text \<open>
  What encoding promises: an encoded resource decodes to an object whose spec holds, under
  \<open>template\<close>, an object that depends on the template only.
\<close>

definition codec_contract :: "codec_lib \<Rightarrow> (pod_template \<Rightarrow> (string \<times> json) list) \<Rightarrow> bool" where
  "codec_contract C template_json \<longleftrightarrow>
     (\<forall>iu str. encode_iu C iu = Inr str \<longrightarrow>
        (\<exists>raw spec. json_decode C str = Some (JObject raw) \<and> map_of raw ''spec'' = Some (JObject spec) \<and>
           map_of spec ''template'' = Some (JObject (template_json (sp_template (iu_spec iu))))))"

lemma getPatch_eq:
  assumes "codec_contract C template_json" and "encode_iu C iu = Inr str"
  shows "getPatch C iu = Inr (json_encode C (JObject [(''spec'', JObject [(''template'',
    JObject (AList.update ''$patch'' (JString ''replace'') (template_json (sp_template (iu_spec iu)))))])]))"
proof -
  obtain raw spec where "json_decode C str = Some (JObject raw)" "map_of raw ''spec'' = Some (JObject spec)"
    "map_of spec ''template'' = Some (JObject (template_json (sp_template (iu_spec iu))))"
    using assms unfolding codec_contract_def by blast
  with assms(2) show ?thesis
    by (simp add: getPatch_def as_object_def SetRevisionTemplate_def)
qed

lemma NewRevision_data:
  assumes "NewRevision C H iu number cc = Inr (Inr cr)"
    and "\<And>iu lbls patch n c r. new_controller_revision H iu lbls patch n c = Inr r \<Longrightarrow>
      rev_data r = patch \<and> rev_revision r = n"
  shows "getPatch C iu = Inr (Inr (rev_data cr)) \<and> rev_revision cr = number"
proof -
  from assms(1) obtain g where g: "getPatch C iu = Inr g"
    by (cases "getPatch C iu") (simp_all add: NewRevision_def)
  with assms(1) obtain patch where p: "g = Inr patch" by (cases g) (simp_all add: NewRevision_def)
  let ?new = "new_controller_revision H iu (tpl_labels (sp_template (iu_spec iu))) patch number cc"
  from assms(1) g p obtain r where r: "?new = Inr r"
    by (cases ?new) (simp_all add: NewRevision_def)
  with assms(1) g p have "rev_data cr = rev_data r" "rev_revision cr = rev_revision r"
    by (auto simp: NewRevision_def)
  with assms(2) [OF r] g p show ?thesis by simp
qed

section \<open>Concrete codecs\<close>

text \<open>Encodings that spell out the labels of the template.\<close>

definition sample_template_json :: "pod_template \<Rightarrow> (string \<times> json) list" where
  "sample_template_json t = [(''image'', JString (concat (map ct_image (tpl_containers t))))]"

definition sample_codec :: codec_lib where
  "sample_codec =
     \<lparr>encode_iu = (\<lambda>iu. Inr (concat (map ct_image (tpl_containers (sp_template (iu_spec iu)))))),
      json_decode = (\<lambda>s. Some (JObject [(''spec'', JObject [(''template'', JObject [(''image'', JString s)])])])),
      json_encode = (\<lambda>j. case j of
         JObject [(a, JObject [(b, JObject [(c, JString s), (d, e)])])] \<Rightarrow> Inr s | _ \<Rightarrow> Inr []),
      strategic_merge_iu = (\<lambda>s patch. Inr patch),
      unmarshal_iu = (\<lambda>s. Inr (sample_iu (Some 1)
        (Some \<lparr>ru_max_unavailable = Some (IntVal 1), ru_max_surge = Some (IntVal 1)\<rparr>)))\<rparr>"

lemma sample_codec_contract: "codec_contract sample_codec sample_template_json"
  by (simp add: codec_contract_def sample_codec_def sample_template_json_def)

section \<open>Properties\<close>

text \<open>
  C31: The data of a revision depends on the pod template only: two states of a resource with the same
  template give the same patch whatever else of them differs (replicas, strategy, metadata, status), so
  changing those never makes a new revision; and the patch is marked to replace the template as a whole.
\<close>

theorem revision_patch_depends_on_template_only:
  assumes "codec_contract C template_json"
    and "encode_iu C iu = Inr a" and "encode_iu C iu' = Inr b"
    and "sp_template (iu_spec iu) = sp_template (iu_spec iu')"
  shows "getPatch C iu = getPatch C iu' \<and>
    (\<exists>template. map_of template ''$patch'' = Some (JString ''replace'') \<and>
       getPatch C iu = Inr (json_encode C (JObject [(''spec'', JObject [(''template'', JObject template)])])))"
proof
  show "getPatch C iu = getPatch C iu'"
    using getPatch_eq [OF assms(1,2)] getPatch_eq [OF assms(1,3)] assms(4) by simp
  show "\<exists>template. map_of template ''$patch'' = Some (JString ''replace'') \<and>
    getPatch C iu = Inr (json_encode C (JObject [(''spec'', JObject [(''template'', JObject template)])]))"
    unfolding getPatch_eq [OF assms(1,2)]
    by (intro exI [of _ "AList.update ''$patch'' (JString ''replace'') (template_json (sp_template (iu_spec iu)))"])
      (simp add: update_conv')
qed

theorem revision_patch_depends_on_template_only_witness:
  "getPatch sample_codec (sample_iu (Some 1) None) = getPatch sample_codec (sample_iu (Some 5) None)"
proof -
  let ?enc = "concat (map ct_image (tpl_containers sample_template))"
  have "encode_iu sample_codec (sample_iu r None) = Inr ?enc" for r
    by (simp add: sample_codec_def sample_iu_def)
  moreover have "sp_template (iu_spec (sample_iu (Some 1) None)) = sp_template (iu_spec (sample_iu (Some 5) None))"
    by (simp add: sample_iu_def)
  ultimately show ?thesis
    using revision_patch_depends_on_template_only [OF sample_codec_contract] by blast
qed

end
