(* ===== verification/Event_Handler.thy ===== *)
theory Event_Handler
  imports Sample_Cluster
begin

text \<open>
  \<open>internal/inplaceu_event_handler/inplaceu_event_handler.go\<close>: what the watch on pods does to the
  controller: it observes the creations and deletions the scale control expects, and queues the
  resources that have to look at the pod.
\<close>

section \<open>State\<close>

text \<open>
  The queue of the controller runtime is only ever written: its state is the list of the calls made.
  \<open>initialingRateLimiter\<close> is a rate limiter of the workqueue package.  It is called with the pointer
  \<open>req\<close> that \<open>resolveControllerRef\<close> has just allocated, so its keys are addresses, and the next
  free one is part of the state.
\<close>

datatype queue_call = QAdd request | QAddAfter request duration

record 'l limiter_lib =
  limiter_when :: "nat \<Rightarrow> 'l \<Rightarrow> duration \<times> 'l"
  limiter_forget :: "nat \<Rightarrow> 'l \<Rightarrow> 'l"

record ('w, 'l) handler =
  eh_sys :: "'w sys"
  eh_queue :: "queue_call list"
  eh_limiter :: 'l
  eh_next_ref :: nat

text \<open>An event carries objects of any kind; the handler looks at pods only.\<close>

datatype event_object = PodObject pod | OtherObject

datatype pod_event =
    CreateEvent event_object
  | UpdateEvent event_object event_object
  | DeleteEvent event_object
  | GenericEvent event_object

definition enqueue :: "queue_call \<Rightarrow> ('w, 'l) handler \<Rightarrow> ('w, 'l) handler" where
  "enqueue c h = h\<lparr>eh_queue := eh_queue h @ [c]\<rparr>"

definition on_sys :: "('w sys \<Rightarrow> 'w sys) \<Rightarrow> ('w, 'l) handler \<Rightarrow> ('w, 'l) handler" where
  "on_sys f h = h\<lparr>eh_sys := f (eh_sys h)\<rparr>"

section \<open>Operations\<close>

definition resolveControllerRef :: "meta_lib \<Rightarrow> string \<Rightarrow> owner_ref \<Rightarrow> request option" where
  "resolveControllerRef M namespace controllerRef =
     (case group_of_version M (or_api_version controllerRef) of
        None \<Rightarrow> None
      | Some refGroup \<Rightarrow>
          (if or_kind controllerRef = ControllerKind_Kind \<and> refGroup = ControllerKind_Group
           then Some \<lparr>req_namespace = namespace, req_name = or_name controllerRef\<rparr>
           else None))"

definition iu_selects :: "meta_lib \<Rightarrow> pod \<Rightarrow> inplaceu \<Rightarrow> bool" where
  "iu_selects M p iu =
     (case as_selector M (sp_selector (iu_spec iu)) of
        Inl e \<Rightarrow> False
      | Inr sel \<Rightarrow> \<not> (selector_empty M sel \<or> \<not> selector_matches M sel (pod_labels p)))"

definition getPodInplaceUs :: "meta_lib \<Rightarrow> 'w api \<Rightarrow> pod \<Rightarrow> 'w sys \<Rightarrow> inplaceu list \<times> 'w sys" where
  "getPodInplaceUs M A p s =
     (case on_world (list_iu A (pod_namespace p)) s of
        (Inl e, s) \<Rightarrow> ([], s)
      | (Inr items, s) \<Rightarrow> (filter (iu_selects M p) items, s))"

definition joinInplaceUNames :: "inplaceu list \<Rightarrow> string" where
  "joinInplaceUNames csList = (case map iu_name csList of
     [] \<Rightarrow> [] | n # ns \<Rightarrow> n @ concat (map (\<lambda>m. '','' @ m) ns))"

definition iu_request :: "inplaceu \<Rightarrow> request" where
  "iu_request iu = \<lparr>req_namespace = iu_namespace iu, req_name = iu_name iu\<rparr>"

text \<open>The last part of \<open>Create\<close> and of \<open>Update\<close>: every resource that selects an orphan is queued.\<close>

definition queue_matching :: "meta_lib \<Rightarrow> 'w api \<Rightarrow> pod \<Rightarrow> ('w, 'l) handler \<Rightarrow> ('w, 'l) handler" where
  "queue_matching M A p h =
     (case getPodInplaceUs M A p (eh_sys h) of
        (iuList, s) \<Rightarrow> foldl (\<lambda>h iu. enqueue (QAdd (iu_request iu)) h) (h\<lparr>eh_sys := s\<rparr>) iuList)"

definition handler_Delete :: "meta_lib \<Rightarrow> event_object \<Rightarrow> ('w, 'l) handler \<Rightarrow> ('w, 'l) handler" where
  "handler_Delete M obj h =
     (case obj of
        OtherObject \<Rightarrow> h
      | PodObject p \<Rightarrow>
          (let h = on_sys (delete_rv (pod_uid p)) h
           in case controller_of M (pod_owners p) of
                None \<Rightarrow> h
              | Some controllerRef \<Rightarrow>
                  (case resolveControllerRef M (pod_namespace p) controllerRef of
                     None \<Rightarrow> h
                   | Some req \<Rightarrow>
                       enqueue (QAdd req)
                         (on_sys (observe_scale (request_key M req) Delete (pod_name p)) h))))"

definition handler_Create ::
  "meta_lib \<Rightarrow> 'w api \<Rightarrow> 'l limiter_lib \<Rightarrow> bool \<Rightarrow> event_object \<Rightarrow> ('w, 'l) handler \<Rightarrow> ('w, 'l) handler" where
  "handler_Create M A Q create_first obj h =
     (case obj of
        OtherObject \<Rightarrow> h
      | PodObject p \<Rightarrow>
          (if pod_deletion p \<noteq> None then handler_Delete M obj h
           else case controller_of M (pod_owners p) of
                  Some controllerRef \<Rightarrow>
                    (case resolveControllerRef M (pod_namespace p) controllerRef of
                       None \<Rightarrow> h
                     | Some req \<Rightarrow>
                         (let ref = eh_next_ref h;
                              h = h\<lparr>eh_next_ref := ref + 1\<rparr>;
                              key = request_key M req;
                              ((isSatisfied, _), s) = check_scale A create_first key (eh_sys h);
                              h = h\<lparr>eh_sys := observe_scale key Create (pod_name p) s\<rparr>
                          in if isSatisfied
                             then case limiter_when Q ref (eh_limiter h) of
                                    (d, l) \<Rightarrow> enqueue (QAddAfter req d) (h\<lparr>eh_limiter := l\<rparr>)
                             else enqueue (QAdd req) (h\<lparr>eh_limiter := limiter_forget Q ref (eh_limiter h)\<rparr>)))
                | None \<Rightarrow> queue_matching M A p h))"

text \<open>\<open>reflect.DeepEqual\<close> on label maps and on owner references is equality of their values.\<close>

definition handler_Update ::
  "meta_lib \<Rightarrow> 'w api \<Rightarrow> event_object \<Rightarrow> event_object \<Rightarrow> ('w, 'l) handler \<Rightarrow> ('w, 'l) handler" where
  "handler_Update M A objOld objNew h =
     (case objOld of OtherObject \<Rightarrow> h | PodObject oldPod \<Rightarrow>
      (case objNew of OtherObject \<Rightarrow> h | PodObject curPod \<Rightarrow>
        (if pod_rv curPod = pod_rv oldPod then h
         else
           let labelChanged = (pod_labels curPod \<noteq> pod_labels oldPod)
           in if pod_deletion curPod \<noteq> None
              then let h = handler_Delete M objNew h
                   in if labelChanged then handler_Delete M objOld h else h
              else
                let curControllerRef = controller_of M (pod_owners curPod);
                    oldControllerRef = controller_of M (pod_owners oldPod);
                    controllerRefChanged = (curControllerRef \<noteq> oldControllerRef);
                    h = (case oldControllerRef of
                           Some ref \<Rightarrow>
                             (if controllerRefChanged
                              then case resolveControllerRef M (pod_namespace oldPod) ref of
                                     Some req \<Rightarrow> enqueue (QAdd req) h
                                   | None \<Rightarrow> h
                              else h)
                         | None \<Rightarrow> h)
                in case curControllerRef of
                     Some ref \<Rightarrow>
                       (case resolveControllerRef M (pod_namespace curPod) ref of
                          None \<Rightarrow> h
                        | Some req \<Rightarrow> enqueue (QAdd req) h)
                   | None \<Rightarrow>
                       (if labelChanged \<or> controllerRefChanged then queue_matching M A curPod h else h))))"

definition handler_Generic :: "event_object \<Rightarrow> ('w, 'l) handler \<Rightarrow> ('w, 'l) handler" where
  "handler_Generic obj h = h"

text \<open>The events of a watch, one after the other, with the map order each of them meets.\<close>

fun handle_event ::
  "meta_lib \<Rightarrow> 'w api \<Rightarrow> 'l limiter_lib \<Rightarrow> bool \<times> pod_event \<Rightarrow> ('w, 'l) handler \<Rightarrow> ('w, 'l) handler" where
  "handle_event M A Q (cf, CreateEvent obj) h = handler_Create M A Q cf obj h"
| "handle_event M A Q (cf, UpdateEvent objOld objNew) h = handler_Update M A objOld objNew h"
| "handle_event M A Q (cf, DeleteEvent obj) h = handler_Delete M obj h"
| "handle_event M A Q (cf, GenericEvent obj) h = handler_Generic obj h"

section \<open>The interface to the scale expectations\<close>

text \<open>
  What a consumer of events promises to those who expect something: an event takes the names it
  shows from the pending sets and leaves the rest.
\<close>

locale expectation_observer =
  fixes handle :: "'e \<Rightarrow> 's \<Rightarrow> 's"
    and pending :: "'s \<Rightarrow> string \<Rightarrow> scale_action \<Rightarrow> string fset"
    and observed :: "'e \<Rightarrow> string \<Rightarrow> scale_action \<Rightarrow> string fset"
  assumes handle_pending: "pending (handle e s) k a = pending s k a |-| observed e k a"
begin

lemma run_pending:
  "x |\<in>| pending (fold handle es s) k a \<longleftrightarrow> x |\<in>| pending s k a \<and> list_all (\<lambda>e. x |\<notin>| observed e k a) es"
  by (induction es arbitrary: s) (auto simp: handle_pending)

lemma run_pending_subset: "pending (fold handle es s) k a |\<subseteq>| pending s k a"
  by (auto simp: run_pending)

lemma run_settles:
  "pending (fold handle es s) k a = {||} \<longleftrightarrow>
     fBall (pending s k a) (\<lambda>x. list_ex (\<lambda>e. x |\<in>| observed e k a) es)"
proof -
  have "pending (fold handle es s) k a = {||} \<longleftrightarrow> (\<forall>x. x |\<notin>| pending (fold handle es s) k a)" by auto
  then show ?thesis unfolding run_pending by (auto simp: list_all_iff list_ex_iff)
qed

end

section \<open>Lemmas\<close>

text \<open>The request of the resource that controls a pod, if it is of our kind.\<close>

definition pod_request :: "meta_lib \<Rightarrow> pod \<Rightarrow> request option" where
  "pod_request M p = (case controller_of M (pod_owners p) of
     None \<Rightarrow> None | Some ref \<Rightarrow> resolveControllerRef M (pod_namespace p) ref)"

definition owner_key :: "meta_lib \<Rightarrow> pod \<Rightarrow> string \<Rightarrow> bool" where
  "owner_key M p k = (case pod_request M p of None \<Rightarrow> False | Some req \<Rightarrow> request_key M req = k)"

definition shown :: "meta_lib \<Rightarrow> pod \<Rightarrow> scale_action \<Rightarrow> string \<Rightarrow> scale_action \<Rightarrow> string fset" where
  "shown M p a' k a = (if a = a' \<and> owner_key M p k then {|pod_name p|} else {||})"

text \<open>The names an event shows to the owner with a key, as created or as deleted.\<close>

fun event_shows :: "meta_lib \<Rightarrow> pod_event \<Rightarrow> string \<Rightarrow> scale_action \<Rightarrow> string fset" where
  "event_shows M (CreateEvent (PodObject p)) k a =
     shown M p (if pod_deletion p = None then Create else Delete) k a"
| "event_shows M (DeleteEvent (PodObject p)) k a = shown M p Delete k a"
| "event_shows M (UpdateEvent (PodObject oldPod) (PodObject curPod)) k a =
     (if pod_rv curPod = pod_rv oldPod \<or> pod_deletion curPod = None then {||}
      else shown M curPod Delete k a |\<union>|
        (if pod_labels curPod \<noteq> pod_labels oldPod then shown M oldPod Delete k a else {||}))"
| "event_shows M _ k a = {||}"

lemma enqueue_frame [simp]:
  "eh_sys (enqueue c h) = eh_sys h" "eh_queue (enqueue c h) = eh_queue h @ [c]"
  "eh_limiter (enqueue c h) = eh_limiter h" "eh_next_ref (enqueue c h) = eh_next_ref h"
  by (simp_all add: enqueue_def)

lemma on_sys_frame [simp]:
  "eh_sys (on_sys f h) = f (eh_sys h)" "eh_queue (on_sys f h) = eh_queue h"
  "eh_limiter (on_sys f h) = eh_limiter h" "eh_next_ref (on_sys f h) = eh_next_ref h"
  by (simp_all add: on_sys_def)

lemma getPodInplaceUs_frame [simp]:
  "scale_exps (snd (getPodInplaceUs M A p s)) = scale_exps s"
  by (auto simp: getPodInplaceUs_def on_world_def split: prod.splits sum.splits)

lemma enqueue_all_frame [simp]:
  "eh_sys (foldl (\<lambda>h iu. enqueue (QAdd (iu_request iu)) h) h ius) = eh_sys h"
  "eh_limiter (foldl (\<lambda>h iu. enqueue (QAdd (iu_request iu)) h) h ius) = eh_limiter h"
  "eh_next_ref (foldl (\<lambda>h iu. enqueue (QAdd (iu_request iu)) h) h ius) = eh_next_ref h"
  "eh_queue (foldl (\<lambda>h iu. enqueue (QAdd (iu_request iu)) h) h ius) =
     eh_queue h @ map (\<lambda>iu. QAdd (iu_request iu)) ius"
  by (induction ius arbitrary: h) simp_all

lemma queue_matching_frame [simp]:
  "scale_exps (eh_sys (queue_matching M A p h)) = scale_exps (eh_sys h)"
  "eh_limiter (queue_matching M A p h) = eh_limiter h"
  "eh_next_ref (queue_matching M A p h) = eh_next_ref h"
  "eh_queue (queue_matching M A p h) =
     eh_queue h @ map (\<lambda>iu. QAdd (iu_request iu)) (fst (getPodInplaceUs M A p (eh_sys h)))"
proof -
  obtain ius s where "getPodInplaceUs M A p (eh_sys h) = (ius, s)" by (cases "getPodInplaceUs M A p (eh_sys h)")
  moreover from this have "scale_exps s = scale_exps (eh_sys h)"
    using getPodInplaceUs_frame [of M A p "eh_sys h"] by simp
  ultimately show "scale_exps (eh_sys (queue_matching M A p h)) = scale_exps (eh_sys h)"
    "eh_limiter (queue_matching M A p h) = eh_limiter h"
    "eh_next_ref (queue_matching M A p h) = eh_next_ref h"
    "eh_queue (queue_matching M A p h) =
       eh_queue h @ map (\<lambda>iu. QAdd (iu_request iu)) (fst (getPodInplaceUs M A p (eh_sys h)))"
    by (simp_all add: queue_matching_def)
qed

text \<open>The handlers in terms of the request.\<close>

lemma handler_other [simp]:
  "handler_Delete M OtherObject h = h"
  "handler_Create M A Q cf OtherObject h = h"
  "handler_Update M A OtherObject obj h = h"
  "handler_Update M A obj OtherObject h = h"
  "handler_Generic obj h = h"
  by (simp_all add: handler_Delete_def handler_Create_def handler_Update_def handler_Generic_def
      split: event_object.splits)

lemma handler_Create_deleted:
  "pod_deletion p \<noteq> None \<Longrightarrow> handler_Create M A Q cf (PodObject p) h = handler_Delete M (PodObject p) h"
  by (simp add: handler_Create_def)

lemma handler_Delete_pod:
  "handler_Delete M (PodObject p) h =
     (case pod_request M p of
        None \<Rightarrow> on_sys (delete_rv (pod_uid p)) h
      | Some req \<Rightarrow> enqueue (QAdd req) (on_sys (observe_scale (request_key M req) Delete (pod_name p))
          (on_sys (delete_rv (pod_uid p)) h)))"
  by (simp add: handler_Delete_def pod_request_def Let_def split: option.splits)

lemma handler_Delete_limiter [simp]:
  "eh_limiter (handler_Delete M obj h) = eh_limiter h"
  "eh_next_ref (handler_Delete M obj h) = eh_next_ref h"
proof -
  show "eh_limiter (handler_Delete M obj h) = eh_limiter h"
  proof (cases obj)
    case (PodObject p)
    then show ?thesis by (cases "pod_request M p") (simp_all add: handler_Delete_pod)
  qed simp
  show "eh_next_ref (handler_Delete M obj h) = eh_next_ref h"
  proof (cases obj)
    case (PodObject p)
    then show ?thesis by (cases "pod_request M p") (simp_all add: handler_Delete_pod)
  qed simp
qed

lemma handler_Delete_pending:
  "pending_names (scale_exps (eh_sys (handler_Delete M (PodObject p) h))) k a =
     pending_names (scale_exps (eh_sys h)) k a |-| shown M p Delete k a"
  by (auto simp: handler_Delete_pod shown_def owner_key_def pending_names_simps split: option.splits)

lemma handler_Create_pending:
  assumes "pod_deletion p = None"
  shows "pending_names (scale_exps (eh_sys (handler_Create M A Q cf (PodObject p) h))) k a =
     pending_names (scale_exps (eh_sys h)) k a |-| shown M p Create k a"
proof (cases "controller_of M (pod_owners p)")
  case None
  with assms show ?thesis
    by (simp add: handler_Create_def shown_def owner_key_def pod_request_def)
next
  case (Some ref)
  show ?thesis
  proof (cases "resolveControllerRef M (pod_namespace p) ref")
    case None
    with Some assms show ?thesis
      by (simp add: handler_Create_def shown_def owner_key_def pod_request_def)
  next
    case req: (Some req)
    obtain ok d s where c: "check_scale A cf (request_key M req) (eh_sys h) = ((ok, d), s)"
      by (metis surj_pair)
    have s: "pending_names (scale_exps s) = pending_names (scale_exps (eh_sys h))"
      using check_scale_frame(2) [of A cf "request_key M req" "eh_sys h"] by (simp add: c)
    from Some req assms c s show ?thesis
      by (auto simp: handler_Create_def shown_def owner_key_def pod_request_def Let_def
          pending_names_simps split: prod.splits)
  qed
qed

lemma handler_Update_pending:
  "pending_names (scale_exps (eh_sys (handler_Update M A (PodObject oldPod) (PodObject curPod) h))) k a =
     pending_names (scale_exps (eh_sys h)) k a |-| event_shows M (UpdateEvent (PodObject oldPod) (PodObject curPod)) k a"
proof (cases "pod_rv curPod = pod_rv oldPod \<or> pod_deletion curPod = None")
  case True
  then show ?thesis
    by (auto simp: handler_Update_def Let_def split: option.splits)
next
  case False
  then show ?thesis
    by (auto simp: handler_Update_def Let_def handler_Delete_pending)
qed

lemma handle_event_pending:
  "pending_names (scale_exps (eh_sys (handle_event M A Q e h))) k a =
     pending_names (scale_exps (eh_sys h)) k a |-| event_shows M (snd e) k a"
proof (cases "(M, A, Q, e, h)" rule: handle_event.cases)
  case (1 M A Q cf obj h)
  then show ?thesis
  proof (cases obj)
    case (PodObject p)
    with 1 show ?thesis
      by (cases "pod_deletion p") (simp_all add: handler_Create_pending handler_Create_deleted handler_Delete_pending)
  qed simp
next
  case (2 M A Q cf objOld objNew h)
  then show ?thesis
  proof (cases objOld)
    case (PodObject p)
    with 2 show ?thesis
    proof (cases objNew)
      case PodObject
      with 2 \<open>objOld = PodObject p\<close> show ?thesis by (simp add: handler_Update_pending del: event_shows.simps)
    qed simp
  qed simp
next
  case (3 M A Q cf obj h)
  then show ?thesis
    by (cases obj) (simp_all add: handler_Delete_pending)
next
  case (4 M A Q cf obj h)
  then show ?thesis by simp
qed

interpretation watch: expectation_observer "handle_event M A Q" "\<lambda>h. pending_names (scale_exps (eh_sys h))"
  "\<lambda>e. event_shows M (snd e)" for M A Q
  by unfold_locales (rule handle_event_pending)

subsection \<open>The rate limiter\<close>

text \<open>
  Documented behaviour of \<open>NewItemExponentialFailureRateLimiter\<close>: per item a number of failures; the
  delay doubles with each, up to a maximum.
\<close>

definition limiter_contract :: "'l limiter_lib \<Rightarrow> ('l \<Rightarrow> nat \<Rightarrow> nat) \<Rightarrow> duration \<Rightarrow> duration \<Rightarrow> bool" where
  "limiter_contract Q failures base maximum \<longleftrightarrow>
     (\<forall>k l. fst (limiter_when Q k l) = min maximum (base * 2 ^ failures l k) \<and>
        failures (snd (limiter_when Q k l)) = (failures l)(k := failures l k + 1) \<and>
        failures (limiter_forget Q k l) = (failures l)(k := 0))"

definition initialing_base :: duration where
  "initialing_base = 3 * second"

definition initialing_max :: duration where
  "initialing_max = 30 * second"

text \<open>No address that is still to be allocated is known to the limiter; all delays so far are the base.\<close>

definition limiter_inv :: "('l \<Rightarrow> nat \<Rightarrow> nat) \<Rightarrow> ('w, 'l) handler \<Rightarrow> bool" where
  "limiter_inv failures h \<longleftrightarrow>
     (\<forall>k \<ge> eh_next_ref h. failures (eh_limiter h) k = 0) \<and>
     (\<forall>req d. QAddAfter req d \<in> set (eh_queue h) \<longrightarrow> d = initialing_base)"

lemma limiter_inv_add:
  "limiter_inv F (h\<lparr>eh_queue := eh_queue h @ map QAdd reqs\<rparr>) = limiter_inv F h"
  by (auto simp: limiter_inv_def)

lemma limiter_inv_frame:
  assumes "limiter_inv F h" and "eh_limiter h' = eh_limiter h" and "eh_next_ref h' = eh_next_ref h"
    and "set (eh_queue h') \<subseteq> set (eh_queue h) \<union> range QAdd"
  shows "limiter_inv F h'"
  using assms by (fastforce simp: limiter_inv_def)

lemma handler_Delete_queue:
  "eh_queue (handler_Delete M obj h) = eh_queue h @
     (case obj of OtherObject \<Rightarrow> [] | PodObject p \<Rightarrow> map QAdd (case pod_request M p of None \<Rightarrow> [] | Some r \<Rightarrow> [r]))"
proof (cases obj)
  case (PodObject p)
  then show ?thesis by (cases "pod_request M p") (simp_all add: handler_Delete_pod)
qed (simp add: handler_Delete_def)

lemma handler_Update_limiter:
  "eh_limiter (handler_Update M A objOld objNew h) = eh_limiter h"
  "eh_next_ref (handler_Update M A objOld objNew h) = eh_next_ref h"
  by (auto simp: handler_Update_def Let_def split: event_object.splits option.splits)

lemma handler_Update_queue:
  "set (eh_queue (handler_Update M A objOld objNew h)) \<subseteq> set (eh_queue h) \<union> range QAdd"
  by (auto simp: handler_Update_def Let_def handler_Delete_queue split: event_object.splits option.splits)

lemma handler_Create_owned:
  assumes "pod_deletion p = None" and "pod_request M p = Some req"
  shows "\<exists>s. handler_Create M A Q cf (PodObject p) h =
    (if \<forall>a. pending_names (scale_exps (eh_sys h)) (request_key M req) a = {||}
     then enqueue (QAddAfter req (fst (limiter_when Q (eh_next_ref h) (eh_limiter h))))
       (h\<lparr>eh_next_ref := eh_next_ref h + 1, eh_sys := s,
          eh_limiter := snd (limiter_when Q (eh_next_ref h) (eh_limiter h))\<rparr>)
     else enqueue (QAdd req)
       (h\<lparr>eh_next_ref := eh_next_ref h + 1, eh_sys := s,
          eh_limiter := limiter_forget Q (eh_next_ref h) (eh_limiter h)\<rparr>))"
proof -
  obtain ref where ref: "controller_of M (pod_owners p) = Some ref"
    "resolveControllerRef M (pod_namespace p) ref = Some req"
    using assms(2) by (auto simp: pod_request_def split: option.splits)
  obtain ok d s where c: "check_scale A cf (request_key M req) (eh_sys h) = ((ok, d), s)"
    by (metis surj_pair)
  have ok: "ok \<longleftrightarrow> (\<forall>a. pending_names (scale_exps (eh_sys h)) (request_key M req) a = {||})"
    using check_scale_frame(1) [of A cf "request_key M req" "eh_sys h"] by (simp add: c)
  obtain d' l where w: "limiter_when Q (eh_next_ref h) (eh_limiter h) = (d', l)" by (metis surj_pair)
  show ?thesis
    by (intro exI [of _ "observe_scale (request_key M req) Create (pod_name p) s"])
      (cases ok; simp add: handler_Create_def assms(1) ref c w Let_def flip: ok)
qed

lemma limiter_inv_event:
  assumes Q: "limiter_contract Q F initialing_base initialing_max" and h: "limiter_inv F h"
  shows "limiter_inv F (handle_event M A Q e h)"
proof (cases "(M, A, Q, e, h)" rule: handle_event.cases)
  case (1 M' A' Q' cf obj h')
  then have e: "handle_event M A Q e h = handler_Create M A Q cf obj h" by simp
  show ?thesis
  proof (cases obj)
    case OtherObject
    with e h show ?thesis by simp
  next
    case (PodObject p)
    show ?thesis
    proof (cases "pod_deletion p")
      case (Some t)
      then have "handler_Create M A Q cf obj h = handler_Delete M obj h"
        by (simp add: handler_Create_deleted PodObject)
      with e h show ?thesis
        by (auto intro!: limiter_inv_frame [OF h] simp: handler_Delete_queue split: event_object.splits option.splits)
    next
      case None
      show ?thesis
      proof (cases "pod_request M p")
        case req: (Some req)
        have small: "fst (limiter_when Q (eh_next_ref h) (eh_limiter h)) = initialing_base"
          using Q h by (auto simp: limiter_contract_def limiter_inv_def initialing_base_def initialing_max_def)
        obtain s where c: "handler_Create M A Q cf (PodObject p) h =
            (if \<forall>a. pending_names (scale_exps (eh_sys h)) (request_key M req) a = {||}
             then enqueue (QAddAfter req initialing_base)
               (h\<lparr>eh_next_ref := eh_next_ref h + 1, eh_sys := s,
                  eh_limiter := snd (limiter_when Q (eh_next_ref h) (eh_limiter h))\<rparr>)
             else enqueue (QAdd req)
               (h\<lparr>eh_next_ref := eh_next_ref h + 1, eh_sys := s,
                  eh_limiter := limiter_forget Q (eh_next_ref h) (eh_limiter h)\<rparr>))"
          using handler_Create_owned [OF None req, of A Q cf h] unfolding small by blast
        have other: "F (snd (limiter_when Q k l)) = (F l)(k := F l k + 1)" "F (limiter_forget Q k l) = (F l)(k := 0)" for k l
          using Q by (auto simp: limiter_contract_def)
        show ?thesis
          unfolding e PodObject c using h by (auto simp: limiter_inv_def other)
      next
        case no: None
        have "handler_Create M A Q cf obj h = h \<or> handler_Create M A Q cf obj h = queue_matching M A p h"
          using no None by (auto simp: handler_Create_def PodObject pod_request_def split: option.splits)
        with e h show ?thesis
          by (auto intro!: limiter_inv_frame [OF h])
      qed
    qed
  qed
next
  case (2 M' A' Q' cf objOld objNew h')
  then have "handle_event M A Q e h = handler_Update M A objOld objNew h" by simp
  then show ?thesis
    by (simp add: limiter_inv_frame [OF h handler_Update_limiter handler_Update_queue])
next
  case (3 M' A' Q' cf obj h')
  then have "handle_event M A Q e h = handler_Delete M obj h" by simp
  then show ?thesis
    by (auto intro!: limiter_inv_frame [OF h] simp: handler_Delete_queue split: event_object.splits option.splits)
next
  case (4 M' A' Q' cf obj h')
  with h show ?thesis by simp
qed

section \<open>A concrete limiter and watch\<close>

definition sample_limiter :: "(nat \<Rightarrow> nat) limiter_lib" where
  "sample_limiter =
     \<lparr>limiter_when = (\<lambda>k l. (min (30 * second) (3 * second * 2 ^ l k), l(k := l k + 1))),
      limiter_forget = (\<lambda>k l. l(k := 0))\<rparr>"

lemma sample_limiter_contract:
  "limiter_contract sample_limiter (\<lambda>l. l) initialing_base initialing_max"
  by (simp add: limiter_contract_def sample_limiter_def initialing_base_def initialing_max_def)

definition sample_handler :: "(nat, nat \<Rightarrow> nat) handler" where
  "sample_handler = \<lparr>eh_sys = sample_sys, eh_queue = [], eh_limiter = (\<lambda>_. 0), eh_next_ref = 0\<rparr>"

definition owned_pod :: "string \<Rightarrow> string \<Rightarrow> pod" where
  "owned_pod name rv = (sample_pod name PodRunning None)\<lparr>pod_owners := [sample_owner], pod_rv := rv\<rparr>"

section \<open>Properties\<close>

text \<open>
  After any run of watch events the scale expectations of a resource are satisfied exactly when every
  name that was pending has been shown by some event: a creation by a create event of a pod of that
  name which the resource controls and which is not being deleted, a deletion by a delete event or
  by an event that shows the pod with its deletion timestamp.  No event adds an expectation, and
  events of pods of other controllers count for nothing.
\<close>

theorem watch_events_settle_expectations:
  "fst (fst (SatisfiedExpectations cf now now' (scale_exps (eh_sys (fold (handle_event M A Q) es h))) k)) \<longleftrightarrow>
   (\<forall>a. fBall (pending_names (scale_exps (eh_sys h)) k a) (\<lambda>x. list_ex (\<lambda>e. x |\<in>| event_shows M (snd e) k a) es))"
  unfolding SatisfiedExpectations_fst watch.run_settles ..

text \<open>
  C30: A change of a pod wakes its owners.  When an update changes the resource version of a pod that is
  not being deleted, the request of the Inplaceu that controls it now is queued at once, and so is
  that of the Inplaceu that controlled it before if the controller changed; a pod without controller
  whose labels or controller changed wakes every Inplaceu that selects it.  Nothing else is queued.
\<close>

theorem pod_update_wakes_owners:
  assumes "pod_rv cur \<noteq> pod_rv old" and "pod_deletion cur = None"
    and "changed \<longleftrightarrow> controller_of M (pod_owners cur) \<noteq> controller_of M (pod_owners old)"
    and "h' = handler_Update M A (PodObject old) (PodObject cur) h"
  shows "eh_queue h' = eh_queue h @ map QAdd
    ((case pod_request M old of Some req \<Rightarrow> if changed then [req] else [] | None \<Rightarrow> []) @
     (case pod_request M cur of Some req \<Rightarrow> [req] | None \<Rightarrow>
        if controller_of M (pod_owners cur) = None \<and> (changed \<or> pod_labels cur \<noteq> pod_labels old)
        then map iu_request (fst (getPodInplaceUs M A cur (eh_sys h))) else []))"
proof -
  note unfolds = handler_Update_def Let_def pod_request_def assms(1,2,4)
  show ?thesis
  proof (cases "controller_of M (pod_owners cur)")
    case None
    with assms(3) show ?thesis
      by (auto simp: unfolds split: option.splits)
  next
    case (Some ref)
    with assms(3) show ?thesis
      by (auto simp: unfolds split: option.splits)
  qed
qed

theorem pod_update_wakes_owners_witness:
  "\<exists>h'. h' = handler_Update sample_meta_lib sample_api (PodObject (owned_pod ''p'' ''1'')) (PodObject (sample_pod ''p'' PodRunning None))
       sample_handler \<and>
     eh_queue h' = [QAdd \<lparr>req_namespace = ''ns'', req_name = ''web''\<rparr>]"
proof -
  let ?old = "owned_pod ''p'' ''1''" and ?cur = "sample_pod ''p'' PodRunning None"
  have rv: "pod_rv ?cur \<noteq> pod_rv ?old" "pod_deletion ?cur = None"
    by (simp_all add: owned_pod_def sample_pod_def)
  have ctrl: "controller_of sample_meta_lib (pod_owners ?cur) = None"
    "controller_of sample_meta_lib (pod_owners ?old) = Some sample_owner"
    by (simp_all add: owned_pod_def sample_pod_def sample_meta_lib_def sample_owner_def)
  have req: "pod_request sample_meta_lib ?old = Some \<lparr>req_namespace = ''ns'', req_name = ''web''\<rparr>"
    "pod_request sample_meta_lib ?cur = None"
    by code_simp+
  have none: "map iu_request (fst (getPodInplaceUs sample_meta_lib sample_api ?cur (eh_sys sample_handler))) = []"
    by code_simp
  have q: "eh_queue sample_handler = []" by (simp add: sample_handler_def)
  have "eh_queue (handler_Update sample_meta_lib sample_api (PodObject ?old) (PodObject ?cur) sample_handler) =
      [QAdd \<lparr>req_namespace = ''ns'', req_name = ''web''\<rparr>]"
    using pod_update_wakes_owners [OF rv refl refl, of sample_meta_lib sample_api sample_handler]
    unfolding ctrl req none q by simp
  then show ?thesis by blast
qed

text \<open>
  The rate limiter of the handler never backs off: it is keyed by a pointer that is new at every
  call, so from a state whose limiter knows no address that is still to be allocated, and under the
  documented behaviour of the limiter, every delayed request waits the base delay of three seconds,
  however often the event repeats, and the reset of the other branch never meets an entry.
\<close>

theorem create_backoff_is_constant:
  assumes "limiter_contract Q failures initialing_base initialing_max"
    and "\<And>k. eh_next_ref h \<le> k \<Longrightarrow> failures (eh_limiter h) k = 0" and "eh_queue h = []"
    and "h' = fold (handle_event M A Q) es h"
  shows "list_all (\<lambda>c. case c of QAdd req \<Rightarrow> True | QAddAfter req d \<Rightarrow> d = 3 * second) (eh_queue h') \<and>
    failures (limiter_forget Q (eh_next_ref h') (eh_limiter h')) = failures (eh_limiter h')"
proof -
  have "limiter_inv failures h" using assms(2,3) by (simp add: limiter_inv_def)
  then have inv: "limiter_inv failures (fold (handle_event M A Q) es h)"
    by (induction es arbitrary: h) (simp_all add: limiter_inv_event [OF assms(1)])
  then have "list_all (\<lambda>c. case c of QAdd req \<Rightarrow> True | QAddAfter req d \<Rightarrow> d = 3 * second) (eh_queue h')"
    unfolding assms(4) limiter_inv_def list_all_iff initialing_base_def
    by (auto split: queue_call.splits)
  moreover have "failures (limiter_forget Q (eh_next_ref h') (eh_limiter h')) = failures (eh_limiter h')"
    using inv assms(1) unfolding assms(4) by (auto simp: limiter_inv_def limiter_contract_def fun_eq_iff)
  ultimately show ?thesis by blast
qed

text \<open>The witness: the same pod is shown as created twice.\<close>

theorem create_backoff_is_constant_witness:
  "\<exists>d d' req req'. eh_queue (fold (handle_event sample_meta_lib sample_api sample_limiter)
     [(True, CreateEvent (PodObject (owned_pod ''p'' ''1''))), (True, CreateEvent (PodObject (owned_pod ''p'' ''1'')))]
     sample_handler) = [QAddAfter req d, QAddAfter req' d'] \<and> d = 3 * second \<and> d' = 3 * second"
proof -
  let ?es = "[(True, CreateEvent (PodObject (owned_pod ''p'' ''1''))), (True, CreateEvent (PodObject (owned_pod ''p'' ''1'')))]"
  let ?h = "fold (handle_event sample_meta_lib sample_api sample_limiter) ?es sample_handler"
  let ?create = "handler_Create sample_meta_lib sample_api sample_limiter True (PodObject (owned_pod ''p'' ''1''))"
  have run: "?h = ?create (?create sample_handler)" by simp
  have "map (\<lambda>c. case c of QAdd _ \<Rightarrow> False | QAddAfter _ _ \<Rightarrow> True) (eh_queue ?h) = [True, True]"
    unfolding run by code_simp
  then obtain c c' where "eh_queue ?h = [c, c']" "\<not> (\<exists>r. c = QAdd r)" "\<not> (\<exists>r. c' = QAdd r)"
    by (auto split: queue_call.splits)
  then obtain req d req' d' where q: "eh_queue ?h = [QAddAfter req d, QAddAfter req' d']"
    by (metis queue_call.exhaust)
  have "\<And>k. eh_next_ref sample_handler \<le> k \<Longrightarrow> (\<lambda>l. l) (eh_limiter sample_handler) k = 0"
    and "eh_queue sample_handler = []"
    by (simp_all add: sample_handler_def)
  from create_backoff_is_constant [OF sample_limiter_contract this refl,
      of sample_meta_lib sample_api ?es]
  show ?thesis unfolding q by simp
qed

end
