(* ===== verification/Controller.thy ===== *)
theory Controller
  imports Scale_Sync Update_Sync Status_Updater Ref_Manager Revision_Control Event_Handler
begin

text \<open>
  \<open>internal/controller/inplaceu_controller.go\<close>: one pass of the reconcile loop over all components,
  and the revision bookkeeping that is its own.
\<close>

section \<open>The environment\<close>

text \<open>
  Everything the reconciler is given: the libraries, the API server, \<open>retry.RetryOnConflict\<close> at the
  three states it is used with, whether a scheme is set, and the order in which Go visits the map of
  a scale expectation.
\<close>

record 'w env =
  e_pods :: pod_lib
  e_meta :: meta_lib
  e_refs :: ref_lib
  e_history :: history_lib
  e_codec :: codec_lib
  e_patch :: patch_lib
  e_api :: "'w api"
  e_retry_pod :: "(string \<times> 'w) attempt \<Rightarrow> (string \<times> 'w) attempt"
  e_retry_revision :: "(revision \<times> 'w) attempt \<Rightarrow> (revision \<times> 'w) attempt"
  e_retry_status :: "'w attempt \<Rightarrow> 'w attempt"
  e_has_schema :: bool
  e_create_first :: bool

section \<open>Pods\<close>

definition getOwnedPods :: "'w env \<Rightarrow> inplaceu \<Rightarrow> 'w sys \<Rightarrow> (go_error + pod list \<times> pod list) \<times> 'w sys" where
  "getOwnedPods E iu s = GetActiveAndInactivePods (e_pods E) (e_api E) (iu_namespace iu) (iu_uid iu) s"

definition claimPods :: "'w env \<Rightarrow> inplaceu \<Rightarrow> pod list \<Rightarrow> 'w sys \<Rightarrow> (go_error + pod list) \<times> 'w sys" where
  "claimPods E instance pods s =
     (case RefManager_New (e_meta E) (sp_selector (iu_spec instance)) instance (e_has_schema E) of
        Inl e \<Rightarrow> (Inl e, s)
      | Inr mgr \<Rightarrow>
          (case ClaimOwnedObjects (e_meta E) (e_refs E) (e_api E) pods [] mgr (world s) of
             ((claimed, err), mgr, w) \<Rightarrow>
               (case err of
                  Some e \<Rightarrow> (Inl e, s\<lparr>world := w\<rparr>)
                | None \<Rightarrow> (Inr claimed, s\<lparr>world := w\<rparr>))))"

section \<open>Revisions\<close>

definition last_of :: "'a list \<Rightarrow> 'a may_panic" where
  "last_of xs = (if xs = [] then Inl IndexOutOfRange else Inr (xs ! (length xs - 1)))"

text \<open>
  The first step finds or writes the update revision, with the collision count that the creation
  loop may raise.
\<close>

definition find_update_revision ::
  "'w env \<Rightarrow> inplaceu \<Rightarrow> revision list \<Rightarrow> revision \<Rightarrow> int32 \<Rightarrow> 'w \<Rightarrow>
     ((go_error + revision \<times> int32) \<times> 'w) may_panic" where
  "find_update_revision E iu revisions updateRevision collisionCount w =
     (let equalRevisions = find_equal_revisions (e_history E) revisions updateRevision;
          equalCount = length equalRevisions
      in bindP (if equalCount > 0
                then bindP (last_of revisions) (\<lambda>newest.
                     bindP (last_of equalRevisions) (\<lambda>newestEqual.
                       Inr (equal_revision (e_history E) newest newestEqual)))
                else Inr False) (\<lambda>unchanged.
         if unchanged
         then bindP (last_of revisions) (\<lambda>newest. Inr (Inr (newest, collisionCount), w))
         else if equalCount > 0
         then bindP (last_of equalRevisions) (\<lambda>newestEqual.
                case UpdateControllerRevision (e_api E) (e_retry_revision E) newestEqual
                       (rev_revision updateRevision) w of
                  ((_, Some e), w) \<Rightarrow> Inr (Inl e, w)
                | ((renumbered, None), w) \<Rightarrow> Inr (Inr (renumbered, collisionCount), w))
         else bindP (CreateControllerRevision (e_history E) (e_api E) iu updateRevision (Some collisionCount) w)
              (\<lambda>((made, cc), w).
                 case made of
                   Inl e \<Rightarrow> Inr (Inl e, w)
                 | Inr r \<Rightarrow> bindP (deref cc) (\<lambda>cc. Inr (Inr (r, cc), w)))))"

definition getActiveRevisions ::
  "'w env \<Rightarrow> inplaceu \<Rightarrow> revision list \<Rightarrow> 'w \<Rightarrow>
     ((go_error + revision \<times> revision \<times> int32) \<times> 'w) may_panic" where
  "getActiveRevisions E iu revisions w =
     (let collisionCount = (case st_collision_count (iu_status iu) of Some c \<Rightarrow> c | None \<Rightarrow> 0)
      in bindP (NewRevision (e_codec E) (e_history E) iu (NextRevision revisions) (Some collisionCount)) (\<lambda>new.
         case new of
           Inl e \<Rightarrow> Inr (Inl e, w)
         | Inr updateRevision \<Rightarrow>
             bindP (find_update_revision E iu revisions updateRevision collisionCount w) (\<lambda>(found, w).
               case found of
                 Inl e \<Rightarrow> Inr (Inl e, w)
               | Inr (updateRevision, collisionCount) \<Rightarrow>
                   (let currentRevision =
                      (case find (\<lambda>r. rev_name r = st_current_revision (iu_status iu)) revisions of
                         Some r \<Rightarrow> r
                       | None \<Rightarrow> updateRevision)
                    in Inr (Inr (currentRevision, updateRevision, collisionCount), w)))))"

text \<open>
  \<open>noLiveRevisions\<close> has capacity \<open>len(revisions)\<close>: a slice beyond its length but within its capacity
  does not panic, it yields nil pointers (\<open>None\<close>), and the API client dereferences the object that
  it is asked to delete.
\<close>

fun delete_revisions :: "'w api \<Rightarrow> revision option list \<Rightarrow> 'w \<Rightarrow> (go_error option \<times> 'w) may_panic" where
  "delete_revisions A [] w = Inr (None, w)"
| "delete_revisions A (r # rs) w =
     bindP (deref r) (\<lambda>r.
       case DeleteControllerRevision A r w of
         (Some e, w) \<Rightarrow> Inr (Some e, w)
       | (None, w) \<Rightarrow> delete_revisions A rs w)"

definition no_live_revisions :: "pod list \<Rightarrow> revision list \<Rightarrow> revision \<Rightarrow> revision \<Rightarrow> revision list" where
  "no_live_revisions pods revisions current update =
     filter (\<lambda>r. rev_name r \<noteq> rev_name current \<and> rev_name r \<noteq> rev_name update \<and>
               \<not> list_ex (is_pod_update (rev_name r)) pods) revisions"

definition slice_within_capacity :: "'a list \<Rightarrow> nat \<Rightarrow> int \<Rightarrow> 'a option list may_panic" where
  "slice_within_capacity xs cap n =
     (if 0 \<le> n \<and> n \<le> int cap
      then Inr (take (nat n) (map Some xs @ replicate (cap - length xs) None))
      else Inl SliceBoundsOutOfRange)"

definition truncateHistory ::
  "'w env \<Rightarrow> inplaceu \<Rightarrow> pod list \<Rightarrow> revision list \<Rightarrow> revision \<Rightarrow> revision \<Rightarrow> 'w \<Rightarrow>
     (go_error option \<times> 'w) may_panic" where
  "truncateHistory E iu pods revisions current update w =
     (let noLiveRevisions = no_live_revisions pods revisions current update;
          historyLen = int (length noLiveRevisions);
          historyLimit = (case sp_revision_history_limit (iu_spec iu) of None \<Rightarrow> 10 | Some l \<Rightarrow> sint l)
      in if historyLen \<le> historyLimit then Inr (None, w)
         else bindP (slice_within_capacity noLiveRevisions (length revisions) (historyLen - historyLimit))
              (\<lambda>old. delete_revisions (e_api E) old w))"

section \<open>Scaling and updating\<close>

definition append_failure :: "time \<Rightarrow> go_error \<Rightarrow> inplaceu_status \<Rightarrow> inplaceu_status" where
  "append_failure now e newStatus = newStatus\<lparr>st_conditions := st_conditions newStatus @
     [\<lparr>cd_type = ''ReplicaFailure'', cd_status = ''True'', cd_last_transition = now, cd_message = e\<rparr>]\<rparr>"

definition note_failure :: "'w api \<Rightarrow> go_error option \<Rightarrow> inplaceu_status \<Rightarrow> 'w sys \<Rightarrow> inplaceu_status \<times> 'w sys" where
  "note_failure A err newStatus s =
     (case err of
        None \<Rightarrow> (newStatus, s)
      | Some e \<Rightarrow> (case on_world (clock_now A) s of (now, s) \<Rightarrow> (append_failure now e newStatus, s)))"

text \<open>The status and the pods are changed in place: the result carries them.\<close>

definition syncInplaceu ::
  "'w env \<Rightarrow> inplaceu \<Rightarrow> inplaceu_status \<Rightarrow> revision \<Rightarrow> revision \<Rightarrow> revision list \<Rightarrow> pod list \<Rightarrow> 'w sys \<Rightarrow>
     ((go_error option \<times> inplaceu_status \<times> pod list) \<times> 'w sys) may_panic" where
  "syncInplaceu E instance newStatus currentRevision updateRevision revisions pods s =
     (if iu_deletion instance \<noteq> None then Inr ((None, newStatus, pods), s)
      else case ApplyRevision (e_codec E) instance currentRevision of
        Inl e \<Rightarrow> Inr ((Some e, newStatus, pods), s)
      | Inr currentSet \<Rightarrow>
          (case ApplyRevision (e_codec E) instance updateRevision of
             Inl e \<Rightarrow> Inr ((Some e, newStatus, pods), s)
           | Inr updateSet \<Rightarrow>
               bindP (Scale (e_pods E) (e_meta E) (e_api E) currentSet updateSet (rev_name currentRevision)
                        (rev_name updateRevision) pods s) (\<lambda>((scaling, podsScaleErr), s).
                 let (newStatus, s) = note_failure (e_api E) podsScaleErr newStatus s
                 in if scaling then Inr ((podsScaleErr, newStatus, pods), s)
                    else bindP (Update (e_pods E) (e_meta E) (e_api E) (e_patch E) (e_retry_pod E) updateSet
                                  currentRevision updateRevision revisions pods s)
                         (\<lambda>((podsUpdateErr, pods), s).
                            let (newStatus, s) = note_failure (e_api E) podsUpdateErr newStatus s;
                                err = (if podsScaleErr = None then podsUpdateErr else podsScaleErr)
                            in Inr ((err, newStatus, pods), s)))))"

section \<open>Reconcile\<close>

record result =
  requeue_after :: duration
  result_err :: "go_error option"

definition pop_duration :: "string \<Rightarrow> 'w sys \<Rightarrow> duration \<times> 'w sys" where
  "pop_duration key s = (case DurationStore_Pop (durations s) key of (d, st) \<Rightarrow> (d, s\<lparr>durations := st\<rparr>))"

definition failed :: "go_error \<Rightarrow> result" where
  "failed e = \<lparr>requeue_after = 0, result_err = Some e\<rparr>"

definition requeue :: "duration \<Rightarrow> result" where
  "requeue d = \<lparr>requeue_after = d, result_err = None\<rparr>"

text \<open>The resource version of the update revision, then of every pod: \<open>Inl\<close> is an early return.\<close>

definition wait_limit :: duration where
  "wait_limit = 5 * minute"

definition await_revision :: "'w api \<Rightarrow> revision \<Rightarrow> 'w sys \<Rightarrow> (result + unit) \<times> 'w sys" where
  "await_revision A r s =
     (case check_rv A (rev_uid r) (rev_rv r) (observe_rv (rev_uid r) (rev_rv r) s) of
        ((isSatisfied, unsatisfiedDuration), s) \<Rightarrow>
          (if isSatisfied then (Inr (), s)
           else if unsatisfiedDuration < wait_limit
           then (Inl (requeue (wait_limit - unsatisfiedDuration)), s)
           else (Inr (), delete_rv (rev_uid r) s)))"

fun await_pods :: "'w api \<Rightarrow> pod list \<Rightarrow> 'w sys \<Rightarrow> (result + unit) \<times> 'w sys" where
  "await_pods A [] s = (Inr (), s)"
| "await_pods A (p # ps) s =
     (case check_rv A (pod_uid p) (pod_rv p) (observe_rv (pod_uid p) (pod_rv p) s) of
        ((isSatisfied, unsatisfiedDuration), s) \<Rightarrow>
          (if isSatisfied then await_pods A ps s
           else if unsatisfiedDuration \<ge> wait_limit then (Inl (requeue 0), s)
           else (Inl (requeue (wait_limit - unsatisfiedDuration)), s)))"

definition new_status :: "inplaceu \<Rightarrow> revision \<Rightarrow> revision \<Rightarrow> int32 \<Rightarrow> inplaceu_status" where
  "new_status instance currentRevision updateRevision collisionCount =
     \<lparr>st_observed_generation = iu_generation instance, st_replicas = 0, st_updated_replicas = 0,
      st_ready_replicas = 0, st_available_replicas = 0, st_unavailable_replicas = 0,
      st_terminating_replicas = None, st_conditions = [], st_collision_count = Some collisionCount,
      st_update_revision = rev_name updateRevision, st_current_revision = rev_name currentRevision\<rparr>"

text \<open>Everything after the waits: scaling and updating, the status, the history, the next wake-up.\<close>

definition reconcile_pods ::
  "'w env \<Rightarrow> string \<Rightarrow> inplaceu \<Rightarrow> revision \<Rightarrow> revision \<Rightarrow> int32 \<Rightarrow> revision list \<Rightarrow> pod list \<Rightarrow> 'w sys \<Rightarrow>
     (result \<times> 'w sys) may_panic" where
  "reconcile_pods E key instance currentRevision updateRevision collisionCount revisions filteredPods s =
     bindP (syncInplaceu E instance (new_status instance currentRevision updateRevision collisionCount)
              currentRevision updateRevision revisions filteredPods s) (\<lambda>((syncErr, newStatus, filteredPods), s).
     bindP (UpdateInplaceuSetStatus (e_pods E) (e_api E) (e_retry_status E) instance newStatus filteredPods s)
       (\<lambda>((statusErr, newStatus), s).
         case statusErr of
           Some e \<Rightarrow> Inr (failed e, s)
         | None \<Rightarrow>
             bindP (truncateHistory E instance filteredPods revisions currentRevision updateRevision (world s))
               (\<lambda>(historyErr, w).
                 let s = s\<lparr>world := w\<rparr>;
                     minReady = sint (sp_min_ready_seconds (iu_spec instance));
                     s = (if syncErr = None \<and> minReady > 0 \<and>
                             st_available_replicas newStatus \<noteq> st_ready_replicas newStatus
                          then push_duration key (second * minReady) s else s);
                     (d, s) = pop_duration key s
                 in Inr (\<lparr>requeue_after = d, result_err = syncErr\<rparr>, s))))"

text \<open>The revisions and the waits, for the pods the resource has claimed.\<close>

definition reconcile_revisions ::
  "'w env \<Rightarrow> string \<Rightarrow> inplaceu \<Rightarrow> selector \<Rightarrow> pod list \<Rightarrow> 'w sys \<Rightarrow> (result \<times> 'w sys) may_panic" where
  "reconcile_revisions E key instance sel filteredPods s =
     (case on_world (ListControllerRevisions (e_meta E) (e_api E) instance sel) s of
        (Inl e, s) \<Rightarrow> Inr (failed e, s)
      | (Inr owned, s) \<Rightarrow>
          (let revisions = sort_revisions (e_history E) owned
           in bindP (getActiveRevisions E instance revisions (world s)) (\<lambda>(active, w).
              let s = s\<lparr>world := w\<rparr>
              in case active of
                   Inl e \<Rightarrow> Inr (failed e, s)
                 | Inr (currentRevision, updateRevision, collisionCount) \<Rightarrow>
                     (case await_revision (e_api E) updateRevision s of
                        (Inl res, s) \<Rightarrow> Inr (res, s)
                      | (Inr _, s) \<Rightarrow>
                          (case await_pods (e_api E) filteredPods s of
                             (Inl res, s) \<Rightarrow> Inr (res, s)
                           | (Inr _, s) \<Rightarrow>
                               reconcile_pods E key instance currentRevision updateRevision collisionCount
                                 revisions filteredPods s)))))"

definition reconcile_body :: "'w env \<Rightarrow> request \<Rightarrow> 'w sys \<Rightarrow> (result \<times> 'w sys) may_panic" where
  "reconcile_body E req s =
     (let key = request_key (e_meta E) req
      in case on_world (get_iu (e_api E) (req_namespace req) (req_name req)) s of
           (Inl e, s) \<Rightarrow>
             (if is_not_found e
              then Inr (requeue 0, s\<lparr>scale_exps := DeleteExpectations (scale_exps s) key\<rparr>)
              else Inr (failed e, s))
         | (Inr instance, s) \<Rightarrow>
             (case as_selector (e_meta E) (sp_selector (iu_spec instance)) of
                Inl e \<Rightarrow> Inr (requeue 0, s)
              | Inr sel \<Rightarrow>
                  (case check_scale (e_api E) (e_create_first E) key s of
                     ((scaleSatisfied, unsatisfiedDuration), s) \<Rightarrow>
                       (if \<not> scaleSatisfied then Inr (requeue (1000 - unsatisfiedDuration), s)
                        else case getOwnedPods E instance s of
                          (Inl e, s) \<Rightarrow> Inr (failed e, s)
                        | (Inr (filteredPods, _), s) \<Rightarrow>
                            (case claimPods E instance filteredPods s of
                               (Inl e, s) \<Rightarrow> Inr (failed e, s)
                             | (Inr filteredPods, s) \<Rightarrow>
                                 reconcile_revisions E key instance sel filteredPods s)))))"

text \<open>The deferred function pops the duration store once more, whatever is returned.\<close>

definition Reconcile :: "'w env \<Rightarrow> request \<Rightarrow> 'w sys \<Rightarrow> (result \<times> 'w sys) may_panic" where
  "Reconcile E req s =
     bindP (reconcile_body E req s) (\<lambda>(res, s).
       Inr (res, snd (pop_duration (request_key (e_meta E) req) s)))"

text \<open>The pods a pass works on, if it gets that far.\<close>

definition worked_on :: "'w env \<Rightarrow> request \<Rightarrow> 'w sys \<Rightarrow> pod list" where
  "worked_on E req s =
     (case on_world (get_iu (e_api E) (req_namespace req) (req_name req)) s of
        (Inl e, s) \<Rightarrow> []
      | (Inr iu, s) \<Rightarrow>
          (case getOwnedPods E iu (snd (check_scale (e_api E) (e_create_first E) (request_key (e_meta E) req) s)) of
             (Inl e, s) \<Rightarrow> []
           | (Inr (owned, _), s) \<Rightarrow>
               (case claimPods E iu owned s of (Inl e, s) \<Rightarrow> [] | (Inr claimed, s) \<Rightarrow> claimed)))"

section \<open>Lemmas\<close>

subsection \<open>The pods of a resource\<close>

lemma split_active:
  "foldl (\<lambda>(active, inactive) p. if P p then (active @ [p], inactive) else (active, inactive @ [p])) (as, is) ps =
     (as @ filter P ps, is @ filter (\<lambda>p. \<not> P p) ps)"
  by (induction ps arbitrary: as "is") auto

lemma getOwnedPods_Inr:
  assumes "getOwnedPods E iu s = (Inr (owned, inactive), s')"
  obtains ps w where "list_owned_pods (e_api E) (iu_namespace iu) (iu_uid iu) (world s) = (Inr ps, w)"
    "owned = filter (is_pod_active (e_pods E)) ps" "s' = s\<lparr>world := w\<rparr>"
  using assms
  by (auto simp: getOwnedPods_def GetActiveAndInactivePods_def on_world_def split_active
      split: prod.splits sum.splits)

lemma getOwnedPods_frame:
  assumes "getOwnedPods E iu s = (r, s')"
  shows "events s' = events s" "scale_exps s' = scale_exps s" "rv_exps s' = rv_exps s"
  using assms
  by (auto simp: getOwnedPods_def GetActiveAndInactivePods_def on_world_def split: prod.splits sum.splits)

lemma claimPods_frame:
  assumes "claimPods E iu ps s = (r, s')"
  shows "events s' = events s" "scale_exps s' = scale_exps s" "rv_exps s' = rv_exps s"
  using assms by (auto simp: claimPods_def split: prod.splits sum.splits option.splits)

text \<open>
  What the API server promises about the identity of pods, their name or their uid: a listing has
  no two of the same, and no write changes it.
\<close>

definition identity_contract :: "'w env \<Rightarrow> (pod \<Rightarrow> string) \<Rightarrow> bool" where
  "identity_contract E f \<longleftrightarrow>
     (\<forall>ns uid w ps w'. list_owned_pods (e_api E) ns uid w = (Inr ps, w') \<longrightarrow> distinct (map f ps)) \<and>
     (\<forall>owner p p'. set_controller_reference (e_refs E) owner p = Inr p' \<longrightarrow> f p' = f p) \<and>
     (\<forall>p w p' w'. update_pod (e_api E) p w = (Inr p', w') \<longrightarrow> f p' = f p)"

lemma claimObject_identity:
  assumes "identity_contract E f"
    and "claimObject M (e_refs E) (e_api E) m obj mgr w = (((True, err), obj'), mgr', w')"
  shows "f obj' = f obj"
proof (cases "wants_adoption M m (rm_owner mgr) obj")
  case True
  obtain e o1 m1 w1 where a: "adopt (e_refs E) (e_api E) obj mgr w = ((e, o1), m1, w1)" by (metis prod.collapse)
  with True assms(2) have r: "e = None" "obj' = o1" by (auto simp: claimObject_adopt)
  obtain c m2 w2 where can: "canAdoptOnce (e_refs E) (e_api E) mgr w = (c, m2, w2)" by (metis prod_cases3)
  from a r can have "c = None" by (cases c) (auto simp: adopt_def)
  with a r can have "obj' = obj \<or> (\<exists>p. set_controller_reference (e_refs E) (rm_owner m2) obj = Inr p \<and>
      update_pod (e_api E) p w2 = (Inr obj', w1))"
    by (auto simp: adopt_def split: prod.splits sum.splits if_splits)
  with assms(1) show ?thesis unfolding identity_contract_def by metis
next
  case False
  with assms(2) show ?thesis
    by (cases "wants_release M m (rm_owner mgr) obj")
      (auto simp: claimObject_quiet claimObject_release split: prod.splits)
qed

lemma claim_each_identity:
  assumes "identity_contract E f"
    and "claim_each M (e_refs E) (e_api E) m objs claimed errs mgr w = ((claimed', errs'), mgr', w')"
    and "distinct (map f claimed @ map f objs)"
  shows "distinct (map f claimed')"
  using assms(2,3)
proof (induction objs arbitrary: claimed errs mgr w)
  case Nil
  then show ?case by simp
next
  case (Cons obj objs)
  obtain ok err obj' m1 w1 where one: "claimObject M (e_refs E) (e_api E) m obj mgr w = (((ok, err), obj'), m1, w1)"
    by (metis prod.collapse)
  have same: "ok \<Longrightarrow> f obj' = f obj" using claimObject_identity [OF assms(1)] one by (cases ok) auto
  show ?case
  proof (cases err)
    case (Some e)
    with Cons one show ?thesis by auto
  next
    case None
    let ?claimed = "if ok then claimed @ [obj'] else claimed"
    have "claim_each M (e_refs E) (e_api E) m objs ?claimed errs m1 w1 = ((claimed', errs'), mgr', w')"
      using Cons.prems(1) one None by simp
    moreover have "distinct (map f ?claimed @ map f objs)" using Cons.prems(2) same by auto
    ultimately show ?thesis by (rule Cons.IH)
  qed
qed

lemma claimed_distinct:
  assumes "identity_contract E f" and "getOwnedPods E iu s = (Inr (owned, inactive), s1)"
    and "claimPods E iu owned s1 = (Inr claimed, s2)"
  shows "distinct (map f claimed)"
proof -
  from getOwnedPods_Inr [OF assms(2)] obtain ps w where
    l: "list_owned_pods (e_api E) (iu_namespace iu) (iu_uid iu) (world s) = (Inr ps, w)"
    and o: "owned = filter (is_pod_active (e_pods E)) ps" by blast
  from assms(1) l have "distinct (map f ps)" unfolding identity_contract_def by blast
  then have d: "distinct (map f [] @ map f owned)" unfolding o by (simp add: distinct_map_filter)
  from assms(3) obtain mgr errs mgr' w' where
    "claim_each (e_meta E) (e_refs E) (e_api E) (match_filters (e_meta E) mgr []) owned [] [] mgr (world s1)
      = ((claimed, errs), mgr', w')"
    by (auto simp: claimPods_def ClaimOwnedObjects_def split: prod.splits sum.splits option.splits)
  from claim_each_identity [OF assms(1) this d] show ?thesis .
qed

subsection \<open>The waits\<close>

lemma observe_check_rv:
  assumes "check_rv A u rv (observe_rv u rv s) = ((ok, d), s')"
  shows "events s' = events s" "scale_exps s' = scale_exps s" "ok = is_satisfied_rv (rv_exps s) u rv"
    "u' \<noteq> u \<Longrightarrow> rv_exps s' u' = rv_exps s u'"
proof -
  note f = check_rv_frame [of A u rv "observe_rv u rv s", unfolded assms]
  show "events s' = events s" "scale_exps s' = scale_exps s" using f by simp_all
  show "ok = is_satisfied_rv (rv_exps s) u rv"
    using f(1) by (simp add: is_satisfied_rv_def RVIsSatisfied_def RVObserve_def Let_def split: option.splits)
  show "rv_exps s' u' = rv_exps s u'" if "u' \<noteq> u"
    using assms that by (auto simp: check_rv_def on_world_def observe_rv_def RVObserve_def RVIsSatisfied_def Let_def
        split: prod.splits option.splits if_splits)
qed

lemma await_revision_frame:
  assumes "await_revision A r s = (res, s')"
  shows "events s' = events s" "scale_exps s' = scale_exps s"
    "u \<noteq> rev_uid r \<Longrightarrow> rv_exps s' u = rv_exps s u"
proof -
  obtain ok d s1 where c: "check_rv A (rev_uid r) (rev_rv r) (observe_rv (rev_uid r) (rev_rv r) s) = ((ok, d), s1)"
    by (metis surj_pair)
  note f = observe_check_rv [OF c]
  show "events s' = events s" "scale_exps s' = scale_exps s"
    "u \<noteq> rev_uid r \<Longrightarrow> rv_exps s' u = rv_exps s u"
    using assms f by (auto simp: await_revision_def c RVDelete_def split: if_splits)
qed

lemma await_pods_frame:
  assumes "await_pods A ps s = (res, s')"
  shows "events s' = events s \<and> scale_exps s' = scale_exps s"
  using assms
proof (induction ps arbitrary: s)
  case (Cons p ps)
  obtain ok d s1 where c: "check_rv A (pod_uid p) (pod_rv p) (observe_rv (pod_uid p) (pod_rv p) s) = ((ok, d), s1)"
    by (metis surj_pair)
  from Cons.prems Cons.IH [of s1] observe_check_rv [OF c] show ?case
    by (auto simp: c split: if_splits)
qed simp

lemma await_pods_passed:
  assumes "await_pods A ps s = (Inr x, s')" and "distinct (map pod_uid ps)"
  shows "list_all (\<lambda>p. is_satisfied_rv (rv_exps s) (pod_uid p) (pod_rv p)) ps"
  using assms
proof (induction ps arbitrary: s)
  case (Cons p ps)
  obtain ok d s1 where c: "check_rv A (pod_uid p) (pod_rv p) (observe_rv (pod_uid p) (pod_rv p) s) = ((ok, d), s1)"
    by (metis surj_pair)
  note f = observe_check_rv [OF c]
  from Cons.prems(1) c have ok: "ok" "await_pods A ps s1 = (Inr x, s')" by (auto split: if_splits)
  from Cons.IH [OF ok(2)] Cons.prems(2)
  have "list_all (\<lambda>p. is_satisfied_rv (rv_exps s1) (pod_uid p) (pod_rv p)) ps" by simp
  moreover have "is_satisfied_rv (rv_exps s1) (pod_uid q) rv = is_satisfied_rv (rv_exps s) (pod_uid q) rv"
    if "q \<in> set ps" for q rv
  proof -
    have "pod_uid q \<noteq> pod_uid p" using Cons.prems(2) imageI [OF that, of pod_uid] by auto
    then have "rv_exps s1 (pod_uid q) = rv_exps s (pod_uid q)" by (rule f(4))
    then show ?thesis by (simp add: is_satisfied_rv_def RVIsSatisfied_def Let_def split: option.splits)
  qed
  ultimately show ?case using f(3) ok(1) by (simp add: list_all_iff)
qed simp

subsection \<open>Scaling and updating\<close>

lemma note_failure_frame:
  assumes "note_failure A err st s = (st', s')"
  shows "events s' = events s" "scale_exps s' = scale_exps s"
  using assms by (auto simp: note_failure_def on_world_def split: option.splits prod.splits)

lemma status_frame:
  assumes "UpdateInplaceuSetStatus L A retry iu st ps s = Inr ((err, st'), s')"
  shows "events s' = events s" "scale_exps s' = scale_exps s"
  using assms
  by (auto simp: UpdateInplaceuSetStatus_def on_world_def bindP_eq_Inr split: prod.splits if_splits)

text \<open>
  What the surroundings promise about a request: the sorting function sorts, the server returns the
  object asked for, applying a revision restores the pod template and leaves the identity of the
  resource, and pods are identified by name and by uid.
\<close>

definition env_contract :: "'w env \<Rightarrow> request \<Rightarrow> bool" where
  "env_contract E req \<longleftrightarrow>
     sort_contract (sort_pods (e_pods E)) \<and>
     (\<forall>w iu. fst (get_iu (e_api E) (req_namespace req) (req_name req) w) = Inr iu \<longrightarrow> iu_request iu = req) \<and>
     (\<forall>iu r iu'. iu_request iu = req \<longrightarrow> ApplyRevision (e_codec E) iu r = Inr iu' \<longrightarrow> iu_request iu' = req) \<and>
     identity_contract E pod_name \<and> identity_contract E pod_uid"

lemma request_key_iu: "request_key M (iu_request iu) = GetControllerKey M iu"
  by (simp add: request_key_def iu_request_def GetControllerKey_def)

lemma env_contractD:
  assumes "env_contract E req"
  shows "sort_contract (sort_pods (e_pods E))"
    and "fst (get_iu (e_api E) (req_namespace req) (req_name req) w) = Inr iu \<Longrightarrow> iu_request iu = req"
    and "iu_request iu = req \<Longrightarrow> ApplyRevision (e_codec E) iu r = Inr iu' \<Longrightarrow> iu_request iu' = req"
    and "identity_contract E pod_name" and "identity_contract E pod_uid"
  using assms unfolding env_contract_def by blast+

text \<open>A step that leaves no trace in the account of a key.\<close>

definition silent :: "'w sys \<Rightarrow> 'w sys \<Rightarrow> bool" where
  "silent s s' \<longleftrightarrow> events_grow s s' \<and> new_objects ''SuccessfulCreate'' s s' = [] \<and>
     new_objects ''SuccessfulDelete'' s s' = [] \<and> scale_exps s' = scale_exps s"

lemma silentI: "events s' = events s \<Longrightarrow> scale_exps s' = scale_exps s \<Longrightarrow> silent s s'"
  by (simp add: silent_def events_grow_same new_objects_same)

lemma silent_trans: "silent s s' \<Longrightarrow> silent s' s'' \<Longrightarrow> silent s s''"
  using events_grow_trans [of s s' s''] new_objects_trans [of s s' s''] by (simp add: silent_def)

lemma keeps_account_silent: "keeps_account key s s' \<Longrightarrow> silent s' s'' \<Longrightarrow> keeps_account key s s''"
  using keeps_account_trans [of key s s' s''] by (simp add: silent_def)

lemma silent_account:
  assumes "silent s s'" "\<And>a. pending_names (scale_exps s) key a = {||}"
  shows "keeps_account key s s'"
  using assms by (simp add: keeps_account_def silent_def)

text \<open>New pods stay within what the resource with the update revision applied asks for.\<close>

definition makes_room_for :: "'w env \<Rightarrow> inplaceu \<Rightarrow> revision \<Rightarrow> pod list \<Rightarrow> 'w sys \<Rightarrow> 'w sys \<Rightarrow> bool" where
  "makes_room_for E iu upd pods s s' \<longleftrightarrow> new_objects ''SuccessfulCreate'' s s' = [] \<or>
     (\<exists>updateSet. ApplyRevision (e_codec E) iu upd = Inr updateSet \<and>
        creates_within (e_pods E) updateSet pods (new_objects ''SuccessfulCreate'' s s'))"

lemma makes_room_same: "events s' = events s \<Longrightarrow> makes_room_for E iu upd pods s s'"
  by (simp add: makes_room_for_def new_objects_same)

lemma makes_room_silent:
  "events_grow s s' \<Longrightarrow> makes_room_for E iu upd pods s s' \<Longrightarrow> silent s' s'' \<Longrightarrow> makes_room_for E iu upd pods s s''"
  using new_objects_trans [of s s' s''] by (simp add: makes_room_for_def silent_def)

lemma makes_room_cong:
  "events s1 = events s \<Longrightarrow> makes_room_for E iu upd pods s1 s' = makes_room_for E iu upd pods s s'"
  using new_objects_cong(1) [of s1 s s' s'] by (simp add: makes_room_for_def)

lemma keeps_account_grows: "keeps_account key s s' \<Longrightarrow> events_grow s s'"
  by (simp add: keeps_account_def)

lemma syncInplaceu_account:
  assumes "syncInplaceu E iu st cur upd revs pods s = Inr ((err, st', pods'), s')"
    and "env_contract E req" and "iu_request iu = req"
    and "distinct (map pod_name pods)"
    and "\<And>a. pending_names (scale_exps s) (GetControllerKey (e_meta E) iu) a = {||}"
  shows "keeps_account (GetControllerKey (e_meta E) iu) s s' \<and> (iu_deletion iu \<noteq> None \<longrightarrow> s' = s) \<and>
    makes_room_for E iu upd pods s s'"
proof (cases "iu_deletion iu")
  case (Some t)
  with assms(1) have "s' = s" by (simp add: syncInplaceu_def)
  with keeps_account_refl [OF assms(5)] show ?thesis by (simp add: makes_room_same)
next
  case None
  show ?thesis
  proof (cases "ApplyRevision (e_codec E) iu cur")
    case (Inl e)
    with assms(1) None have "s' = s" by (simp add: syncInplaceu_def)
    with keeps_account_refl [OF assms(5)] show ?thesis by (simp add: makes_room_same)
  next
    case currentSet: (Inr currentSet)
    show ?thesis
    proof (cases "ApplyRevision (e_codec E) iu upd")
      case (Inl e)
      with assms(1) None currentSet have "s' = s" by (simp add: syncInplaceu_def)
      with keeps_account_refl [OF assms(5)] show ?thesis by (simp add: makes_room_same)
    next
      case updateSet: (Inr updateSet)
      have key: "GetControllerKey (e_meta E) updateSet = GetControllerKey (e_meta E) iu"
        using env_contractD(3) [OF assms(2,3) updateSet] assms(3) by (simp flip: request_key_iu)
      obtain m e s1 where sc: "Scale (e_pods E) (e_meta E) (e_api E) currentSet updateSet (rev_name cur)
          (rev_name upd) pods s = Inr ((m, e), s1)"
        using assms(1) None currentSet updateSet
        by (cases "Scale (e_pods E) (e_meta E) (e_api E) currentSet updateSet (rev_name cur) (rev_name upd) pods s")
          (auto simp: syncInplaceu_def)
      have acc: "keeps_account (GetControllerKey (e_meta E) iu) s s1"
        using Scale_account [OF sc env_contractD(1) [OF assms(2)] assms(4)] assms(5) by (simp add: key)
      have room: "makes_room_for E iu upd pods s s1"
        using Scale_creates_within [OF sc] updateSet by (simp add: makes_room_for_def)
      note keep = keeps_account_silent [OF acc] makes_room_silent [OF keeps_account_grows [OF acc] room]
      obtain st1 s2 where n: "note_failure (e_api E) e st s1 = (st1, s2)" by (metis surj_pair)
      have s2: "silent s1 s2" using note_failure_frame [OF n] by (rule silentI)
      show ?thesis
      proof (cases m)
        case True
        with assms(1) None currentSet updateSet sc n have "s' = s2" by (simp add: syncInplaceu_def)
        with keep [OF s2] None show ?thesis by simp
      next
        case False
        with assms(1) None currentSet updateSet sc n obtain ue pods1 s3 where
          u: "Update (e_pods E) (e_meta E) (e_api E) (e_patch E) (e_retry_pod E) updateSet cur upd revs pods s2
            = Inr ((ue, pods1), s3)"
          by (cases "Update (e_pods E) (e_meta E) (e_api E) (e_patch E) (e_retry_pod E) updateSet cur upd revs pods s2")
            (auto simp: syncInplaceu_def)
        obtain st3 s4 where n3: "note_failure (e_api E) ue st1 s3 = (st3, s4)" by (metis surj_pair)
        from assms(1) None currentSet updateSet sc n False u n3 have s4: "s4 = s'" by (simp add: syncInplaceu_def)
        have "silent s2 s3" using Update_frame [OF u] by (simp add: silent_def)
        moreover have "silent s3 s'" using note_failure_frame [OF n3] unfolding s4 by (rule silentI)
        ultimately have "silent s1 s'" using s2 silent_trans by blast
        with keep None show ?thesis by simp
      qed
    qed
  qed
qed

subsection \<open>A pass of the loop\<close>

lemma pop_duration_frame [simp]:
  "events (snd (pop_duration key s)) = events s"
  "scale_exps (snd (pop_duration key s)) = scale_exps s"
  "rv_exps (snd (pop_duration key s)) = rv_exps s"
  "world (snd (pop_duration key s)) = world s"
  "durations (snd (pop_duration key s)) = (durations s)(key := None)"
  "fst (pop_duration key s) = stored_wait (durations s) key"
  by (auto simp: pop_duration_def DurationStore_Pop_def stored_wait_def Duration_Get_def fun_eq_iff
      split: option.splits prod.splits)

lemma reconcile_pods_account:
  assumes "reconcile_pods E key iu cur upd cc revs pods s = Inr (res, s')"
    and "key = request_key (e_meta E) req"
    and "env_contract E req" and "iu_request iu = req"
    and "distinct (map pod_name pods)" and "\<And>a. pending_names (scale_exps s) key a = {||}"
  shows "keeps_account key s s' \<and> (iu_deletion iu \<noteq> None \<longrightarrow> events s' = events s) \<and>
    makes_room_for E iu upd pods s s'"
proof -
  let ?sync = "syncInplaceu E iu (new_status iu cur upd cc) cur upd revs pods s"
  obtain err st1 pods1 s1 where sync: "?sync = Inr ((err, st1, pods1), s1)"
    using assms(1) by (cases ?sync) (auto simp: reconcile_pods_def)
  have key: "GetControllerKey (e_meta E) iu = key" using assms(2,4) by (simp flip: request_key_iu)
  note acc = syncInplaceu_account [OF sync assms(3-5), unfolded key, OF assms(6)]
  let ?status = "UpdateInplaceuSetStatus (e_pods E) (e_api E) (e_retry_status E) iu st1 pods1 s1"
  obtain serr st2 s2 where status: "?status = Inr ((serr, st2), s2)"
    using assms(1) sync by (cases ?status) (auto simp: reconcile_pods_def)
  note f = status_frame [OF status]
  have "silent s2 s' \<and> events s' = events s2"
  proof (cases serr)
    case (Some e)
    with assms(1) sync status have "s' = s2" by (simp add: reconcile_pods_def)
    then show ?thesis by (simp add: silentI)
  next
    case None
    let ?trunc = "truncateHistory E iu pods1 revs cur upd (world s2)"
    obtain herr w where trunc: "?trunc = Inr (herr, w)"
      using assms(1) sync status None by (cases ?trunc) (auto simp: reconcile_pods_def)
    define s3 where "s3 = (if err = None \<and> 0 < sint (sp_min_ready_seconds (iu_spec iu)) \<and>
        st_available_replicas st2 \<noteq> st_ready_replicas st2
      then push_duration key (second * sint (sp_min_ready_seconds (iu_spec iu))) (s2\<lparr>world := w\<rparr>)
      else s2\<lparr>world := w\<rparr>)"
    obtain d s4 where pop: "pop_duration key s3 = (d, s4)" by (metis surj_pair)
    from assms(1) sync status None trunc pop have "s' = s4"
      by (simp add: reconcile_pods_def Let_def flip: s3_def)
    then have "s' = snd (pop_duration key s3)" by (simp add: pop)
    moreover have "events s3 = events s2" "scale_exps s3 = scale_exps s2" by (simp_all add: s3_def)
    ultimately show ?thesis by (simp add: silentI)
  qed
  moreover have "silent s1 s2" using f by (rule silentI)
  ultimately have "silent s1 s'" "events s' = events s1" using silent_trans f by auto
  with acc keeps_account_silent makes_room_silent [OF keeps_account_grows] show ?thesis by auto
qed

text \<open>A pass either returns early, or reaches the part that may write pods.\<close>

lemma reconcile_revisions_cases:
  assumes "reconcile_revisions E key iu sel claimed s = Inr (res, s')"
  obtains (early) "events s' = events s" "scale_exps s' = scale_exps s"
  | (pods) s1 s2 cur upd cc revs where "await_pods (e_api E) claimed s1 = (Inr (), s2)"
      "reconcile_pods E key iu cur upd cc revs claimed s2 = Inr (res, s')"
      "events s2 = events s" "scale_exps s2 = scale_exps s"
      "\<And>u. u \<noteq> rev_uid upd \<Longrightarrow> rv_exps s1 u = rv_exps s u"
proof -
  obtain rl s5 where ls: "on_world (ListControllerRevisions (e_meta E) (e_api E) iu sel) s = (rl, s5)"
    by (metis surj_pair)
  have f5: "events s5 = events s" "scale_exps s5 = scale_exps s" "rv_exps s5 = rv_exps s"
    using on_world_frame [of "ListControllerRevisions (e_meta E) (e_api E) iu sel" s] ls by simp_all
  show thesis
  proof (cases rl)
    case (Inl e)
    with assms ls have "s' = s5" by (simp add: reconcile_revisions_def)
    with f5 show thesis by (intro early) auto
  next
    case rs: (Inr rs)
    let ?revs = "sort_revisions (e_history E) rs"
    obtain ra w where ga: "getActiveRevisions E iu ?revs (world s5) = Inr (ra, w)"
      using assms ls rs by (cases "getActiveRevisions E iu ?revs (world s5)")
        (auto simp: reconcile_revisions_def Let_def)
    show thesis
    proof (cases ra)
      case (Inl e)
      with assms ls rs ga have "s' = s5\<lparr>world := w\<rparr>" by (simp add: reconcile_revisions_def Let_def)
      with f5 show thesis by (intro early) auto
    next
      case ra: (Inr active)
      obtain cur upd cc where act: "active = (cur, upd, cc)" by (metis prod_cases3)
      obtain r1 s6 where aw: "await_revision (e_api E) upd (s5\<lparr>world := w\<rparr>) = (r1, s6)"
        by (metis surj_pair)
      note f6 = await_revision_frame [OF aw]
      obtain r2 s7 where ap: "await_pods (e_api E) claimed s6 = (r2, s7)" by (metis surj_pair)
      note f7 = await_pods_frame [OF ap]
      note run = assms [unfolded reconcile_revisions_def Let_def ls rs prod.case sum.case ga bindP_simps
          ra act aw ap]
      consider res where "r1 = Inl res \<or> r2 = Inl res" "s' = s6 \<or> s' = s7"
        | "r1 = Inr ()" "r2 = Inr ()"
        using run by (cases r1; cases r2) auto
      then show thesis
      proof cases
        case 1
        with f5 f6 f7 show thesis by (intro early) auto
      next
        case 2
        with run have "reconcile_pods E key iu cur upd cc ?revs claimed s7 = Inr (res, s')" by simp
        with 2 ap f5 f6 f7 show thesis by (intro pods [of s6 s7]) auto
      qed
    qed
  qed
qed

lemma reconcile_body_cases:
  assumes "reconcile_body E req s = Inr (res, s')" and key: "key = request_key (e_meta E) req"
  obtains (gone) "events s' = events s" "scale_exps s' = DeleteExpectations (scale_exps s) key"
      "fst (get_iu (e_api E) (req_namespace req) (req_name req) (world s)) = Inl (ApiError NotFound)"
  | (early) "events s' = events s" "pending_names (scale_exps s') = pending_names (scale_exps s)"
      "fst (get_iu (e_api E) (req_namespace req) (req_name req) (world s)) \<noteq> Inl (ApiError NotFound)"
  | (pods) iu owned inactive claimed s1 s2 s3 s4 s5 cur upd cc revs where
      "fst (get_iu (e_api E) (req_namespace req) (req_name req) (world s)) = Inr iu"
      "\<And>a. pending_names (scale_exps s) key a = {||}"
      "getOwnedPods E iu s1 = (Inr (owned, inactive), s2)" "claimPods E iu owned s2 = (Inr claimed, s3)"
      "await_pods (e_api E) claimed s4 = (Inr (), s5)"
      "reconcile_pods E key iu cur upd cc revs claimed s5 = Inr (res, s')"
      "events s5 = events s" "pending_names (scale_exps s5) = pending_names (scale_exps s)"
      "\<And>u. u \<noteq> rev_uid upd \<Longrightarrow> rv_exps s4 u = rv_exps s u"
      "worked_on E req s = claimed"
proof -
  obtain r s1 where get: "on_world (get_iu (e_api E) (req_namespace req) (req_name req)) s = (r, s1)"
    by (metis surj_pair)
  have r: "r = fst (get_iu (e_api E) (req_namespace req) (req_name req) (world s))"
    and f1: "events s1 = events s" "scale_exps s1 = scale_exps s" "rv_exps s1 = rv_exps s"
    using on_world_frame [of "get_iu (e_api E) (req_namespace req) (req_name req)" s] get by simp_all
  note body = assms(1) [unfolded reconcile_body_def Let_def get prod.case, folded key]
  show thesis
  proof (cases r)
    case (Inl e)
    with body have "is_not_found e \<and> s' = s1\<lparr>scale_exps := DeleteExpectations (scale_exps s1) key\<rparr> \<or>
        \<not> is_not_found e \<and> s' = s1"
      by (auto split: if_splits)
    moreover have "fst (get_iu (e_api E) (req_namespace req) (req_name req) (world s)) = Inl e" using r Inl by simp
    ultimately show thesis using f1 gone early by (auto simp: is_not_found_def)
  next
    case iu: (Inr iu)
    show thesis
    proof (cases "as_selector (e_meta E) (sp_selector (iu_spec iu))")
      case (Inl e)
      with body iu have "s' = s1" by simp
      with f1 r iu show thesis by (intro early) auto
    next
      case sel: (Inr sel)
      obtain ok d s2 where chk: "check_scale (e_api E) (e_create_first E) key s1 = ((ok, d), s2)"
        by (metis surj_pair)
      note f2 = check_scale_frame [of "e_api E" "e_create_first E" key s1, unfolded chk fst_conv snd_conv]
      obtain ro s3 where own: "getOwnedPods E iu s2 = (ro, s3)" by (metis surj_pair)
      note f3 = getOwnedPods_frame [OF own]
      show thesis
      proof (cases "ok \<and> (\<exists>x. ro = Inr x)")
        case False
        with body iu sel chk own have "s' = s2 \<or> s' = s3" by (cases ro) (auto split: if_splits)
        with f1 f2 f3 r iu show thesis by (intro early) auto
      next
        case True
        then obtain owned inactive where ro: ok "ro = Inr (owned, inactive)" by force
        obtain rc s4 where cl: "claimPods E iu owned s3 = (rc, s4)" by (metis surj_pair)
        note f4 = claimPods_frame [OF cl]
        show thesis
        proof (cases rc)
          case (Inl e)
          with body iu sel chk own ro cl have "s' = s4" by simp
          with f1 f2 f3 f4 r iu show thesis by (intro early) auto
        next
          case claimed: (Inr claimed)
          have working: "worked_on E req s = claimed"
            using get chk own ro cl claimed iu by (simp add: worked_on_def key)
          from body iu sel chk own ro cl claimed
          have "reconcile_revisions E key iu sel claimed s4 = Inr (res, s')" by simp
          then show thesis
          proof (cases rule: reconcile_revisions_cases)
            case early
            with f1 f2 f3 f4 r iu show thesis by (intro that(2)) auto
          next
            case (pods s5 s6 cur upd cc revs)
            show thesis
              by (rule that(3) [of iu s2 owned inactive s3 claimed s4 s5 s6 cur upd cc revs])
                (use pods r iu f1 f2 f3 f4 ro own cl claimed working in simp_all)
          qed
        qed
      qed
    qed
  qed
qed

lemma Reconcile_body:
  assumes "Reconcile E req s = Inr (res, s')"
  obtains s1 where "reconcile_body E req s = Inr (res, s1)" "s' = snd (pop_duration (request_key (e_meta E) req) s1)"
  using assms by (auto simp: Reconcile_def bindP_eq_Inr)

lemma Reconcile_account:
  assumes run: "Reconcile E req s = Inr (res, s')" and key: "key = request_key (e_meta E) req"
    and contract: "env_contract E req"
  shows "if \<forall>a. pending_names (scale_exps s) key a = {||} then keeps_account key s s' else events s' = events s"
proof -
  from Reconcile_body [OF run] obtain s1 where body: "reconcile_body E req s = Inr (res, s1)"
    and s': "s' = snd (pop_duration key s1)" unfolding key by blast
  have pop: "events s' = events s1" "scale_exps s' = scale_exps s1" by (simp_all add: s')
  from body key show ?thesis
  proof (cases rule: reconcile_body_cases)
    case gone
    then show ?thesis using pop
      by (auto simp: keeps_account_def events_grow_same new_objects_same pending_names_simps)
  next
    case early
    then show ?thesis using pop keeps_account_refl [of s key s'] by simp
  next
    case (pods iu owned inactive claimed s1' s2 s3 s4 s5 cur upd cc revs)
    note iu = env_contractD(2) [OF contract pods(1)]
    have d: "distinct (map pod_name claimed)" by (rule claimed_distinct [OF env_contractD(4) [OF contract] pods(3,4)])
    from pods(2,8) have "\<And>a. pending_names (scale_exps s5) key a = {||}" by simp
    from reconcile_pods_account [OF pods(6) key contract iu d this]
    have "keeps_account key s5 s1" by blast
    then have "keeps_account key s s1" using keeps_account_cong [OF pods(7,8)] by simp
    then have "keeps_account key s s'" by (rule keeps_account_silent) (rule silentI [OF pop])
    then show ?thesis using pods(2) by simp
  qed
qed

text \<open>Applying a revision changes the pod template only, not what the spec says about numbers.\<close>

definition template_only :: "'w env \<Rightarrow> request \<Rightarrow> bool" where
  "template_only E req \<longleftrightarrow> (\<forall>w iu r iu'. fst (get_iu (e_api E) (req_namespace req) (req_name req) w) = Inr iu \<longrightarrow>
     ApplyRevision (e_codec E) iu r = Inr iu' \<longrightarrow>
       sp_replicas (iu_spec iu') = sp_replicas (iu_spec iu) \<and> sp_strategy (iu_spec iu') = sp_strategy (iu_spec iu))"

lemma Reconcile_creates_within:
  assumes run: "Reconcile E req s = Inr (res, s')" and contract: "env_contract E req" "template_only E req"
    and made: "new_objects ''SuccessfulCreate'' s s' \<noteq> []"
  obtains iu where "fst (get_iu (e_api E) (req_namespace req) (req_name req) (world s)) = Inr iu"
    "creates_within (e_pods E) iu (worked_on E req s) (new_objects ''SuccessfulCreate'' s s')"
proof -
  from Reconcile_body [OF run] obtain s1 where body: "reconcile_body E req s = Inr (res, s1)"
    and s': "s' = snd (pop_duration (request_key (e_meta E) req) s1)" by blast
  have pop: "events s' = events s1" by (simp add: s')
  with made have changed: "events s1 \<noteq> events s" by (auto simp: new_objects_def)
  show thesis
    using body refl
  proof (cases rule: reconcile_body_cases)
    case (pods iu owned inactive claimed s2 s3 s4 s5 s6 cur upd cc revs)
    note iu = env_contractD(2) [OF contract(1) pods(1)]
    have d: "distinct (map pod_name claimed)" by (rule claimed_distinct [OF env_contractD(4) [OF contract(1)] pods(3,4)])
    from pods(2,8) have clean: "\<And>a. pending_names (scale_exps s6) (request_key (e_meta E) req) a = {||}" by simp
    have same: "new_objects ''SuccessfulCreate'' s6 s1 = new_objects ''SuccessfulCreate'' s s'"
      by (rule new_objects_cong) (simp_all add: pods(7) pop)
    from reconcile_pods_account [OF pods(6) refl contract(1) iu d clean] made
    obtain updateSet where "ApplyRevision (e_codec E) iu upd = Inr updateSet"
      "creates_within (e_pods E) updateSet claimed (new_objects ''SuccessfulCreate'' s s')"
      by (auto simp: makes_room_for_def same)
    moreover from this(1) pods(1) contract(2) have "sp_replicas (iu_spec updateSet) = sp_replicas (iu_spec iu)"
      "sp_strategy (iu_spec updateSet) = sp_strategy (iu_spec iu)"
      unfolding template_only_def by blast+
    ultimately show thesis using that [OF pods(1)] by (simp add: pods(10) creates_within_spec)
  qed (use changed in simp_all)
qed

subsection \<open>The history\<close>

lemma delete_revisions_returns: "\<exists>r. delete_revisions A (map Some rs) w = Inr r"
  by (induction rs arbitrary: w) (auto split: prod.splits option.splits)

lemma delete_revisions_panics:
  assumes "\<And>r w. fst (delete_revision A r w) = None"
  shows "\<exists>p. delete_revisions A (map Some rs @ None # rest) w = Inl p"
proof (induction rs arbitrary: w)
  case (Cons r rs)
  obtain w' where "delete_revision A r w = (None, w')" using assms [of r w] by (metis prod.collapse)
  with Cons show ?case by (simp add: DeleteControllerRevision_def)
qed simp

lemma truncateHistory_within:
  assumes "limit = (case sp_revision_history_limit (iu_spec iu) of None \<Rightarrow> 10 | Some l \<Rightarrow> sint l)" and "0 \<le> limit"
    and "unused = no_live_revisions pods revisions current update"
  shows "truncateHistory E iu pods revisions current update w =
    delete_revisions (e_api E) (map Some (take (length unused - nat limit) unused)) w"
proof (cases "int (length unused) \<le> limit")
  case True
  then have "length unused - nat limit = 0" by linarith
  with True show ?thesis by (simp add: truncateHistory_def Let_def flip: assms(1,3))
next
  case False
  have le: "length unused \<le> length revisions" by (simp add: assms(3) no_live_revisions_def)
  have n: "nat (int (length unused) - limit) = length unused - nat limit" using assms(2) by linarith
  have "slice_within_capacity unused (length revisions) (int (length unused) - limit) =
      Inr (map Some (take (length unused - nat limit) unused))"
    using False le assms(2) by (simp add: slice_within_capacity_def n take_map)
  with False show ?thesis by (simp add: truncateHistory_def Let_def flip: assms(1,3))
qed

text \<open>The update revision holds the data asked for, however it was found.\<close>

lemma find_update_revision_data:
  assumes "find_update_revision E iu revs new c w = Inr (Inr (upd, cc), w')"
    and "history_contract (e_history E)" and "\<And>a b. equal_revision (e_history E) a b \<Longrightarrow> rev_data a = rev_data b"
    and "revision_contract (e_api E)" and "retry_contract (e_retry_revision E)" and "data_contract (e_api E) D"
    and "list_all (\<lambda>r. rev_data r = D (rev_name r)) revs"
  shows "rev_data upd = rev_data new \<and>
    (upd = last revs \<and> revs \<noteq> [] \<and> w' = w \<and> cc = c \<or> rev_revision upd = rev_revision new \<or>
     list_all (\<lambda>r. \<not> equal_revision (e_history E) r new) revs)"
proof -
  let ?H = "e_history E"
  have eqs: "find_equal_revisions ?H revs new = filter (\<lambda>x. equal_revision ?H x new) revs"
    using assms(2) unfolding history_contract_def by blast
  let ?eq = "filter (\<lambda>x. equal_revision ?H x new) revs"
  show ?thesis
  proof (cases "?eq = []")
    case True
    then have none: "list_all (\<lambda>r. \<not> equal_revision ?H r new) revs" by (simp add: list_all_iff filter_empty_conv)
    from assms(1) True obtain made c' w1 where
      "CreateControllerRevision ?H (e_api E) iu new (Some c) w = Inr ((made, c'), w1)"
      by (auto simp: find_update_revision_def eqs Let_def bindP_eq_Inr)
    moreover from this assms(1) True have "made = Inr upd"
      by (cases made) (auto simp: find_update_revision_def eqs Let_def bindP_eq_Inr)
    ultimately obtain c2 where "create_loop ?H (e_api E) iu new c w = Some ((Inr upd, c2), w1)"
      by (auto simp: CreateControllerRevision_def bindP_eq_Inr returns_def split: option.splits)
    from create_loop_result [OF assms(4) this] none show ?thesis by (simp add: loop_result_def)
  next
    case False
    let ?newest = "revs ! (length revs - 1)" and ?last = "?eq ! (length ?eq - 1)"
    have "last ?eq \<in> set ?eq" using False by (rule last_in_set)
    then have l: "?last \<in> set revs" "equal_revision ?H ?last new" using False by (simp_all add: last_conv_nth)
    have revs: "revs \<noteq> []" using False by auto
    have ld: "rev_data ?last = rev_data new" "rev_data ?last = D (rev_name ?last)"
      using l assms(3,7) by (auto simp: list_all_iff)
    show ?thesis
    proof (cases "equal_revision ?H ?newest ?last")
      case True
      with assms(1) False revs have "upd = ?newest" "w' = w" "cc = c"
        by (simp_all add: find_update_revision_def eqs Let_def last_of_def)
      with True revs ld(1) assms(3) [OF True] show ?thesis by (simp add: last_conv_nth)
    next
      case neq: False
      obtain clone err w1 where u: "UpdateControllerRevision (e_api E) (e_retry_revision E) ?last (rev_revision new) w
          = ((clone, err), w1)" by (metis surj_pair)
      from assms(1) False neq revs u have "err = None" "clone = upd"
        by (cases err; simp add: find_update_revision_def eqs Let_def last_of_def)+
      with u updated_revision_keeps_data [OF assms(6,5) ld(2) u] updated_revision_number [OF assms(4,5)] ld(1)
      show ?thesis by simp
    qed
  qed
qed

section \<open>A concrete environment\<close>

definition sample_env :: "nat env" where
  "sample_env =
     \<lparr>e_pods = sample_pod_lib, e_meta = sample_meta_lib, e_refs = sample_ref_lib, e_history = sample_history_lib,
      e_codec = sample_codec, e_patch = sample_patch_lib, e_api = sample_api, e_retry_pod = attempts 3,
      e_retry_revision = attempts 3, e_retry_status = attempts 3, e_has_schema = True, e_create_first = True\<rparr>"

definition sample_request :: request where
  "sample_request = \<lparr>req_namespace = ''ns'', req_name = ''web''\<rparr>"

lemma sample_env_contract: "env_contract sample_env sample_request"
proof -
  have "identity_contract sample_env f" if "\<And>p os. f (p\<lparr>pod_owners := os\<rparr>) = f p" "\<And>p rv. f (p\<lparr>pod_rv := rv\<rparr>) = f p"
    for f :: "pod \<Rightarrow> string"
    using that by (simp add: identity_contract_def sample_env_def sample_api_def sample_ref_lib_def)
  then show ?thesis
    by (simp add: env_contract_def, simp add: sample_env_def sample_pod_lib_sorts sample_api_def sample_iu_def
        sample_request_def iu_request_def ApplyRevision_def ApplyRevisionPatch_def sample_codec_def)
qed

text \<open>One pass of it, evaluated: it creates one pod and deletes none.\<close>

lemma sample_pass:
  obtains res s' where "Reconcile sample_env sample_request sample_sys = Inr (res, s')"
    "event_objects ''SuccessfulCreate'' (events s') = [''web-xxxxi'']"
    "event_objects ''SuccessfulDelete'' (events s') = []" "length (events s') = 1"
proof -
  let ?run = "Reconcile sample_env sample_request sample_sys"
  have "case ?run of Inl p \<Rightarrow> False | Inr r \<Rightarrow>
      event_objects ''SuccessfulCreate'' (events (snd r)) = [''web-xxxxi''] \<and>
      event_objects ''SuccessfulDelete'' (events (snd r)) = [] \<and> length (events (snd r)) = 1" by code_simp
  note facts = Inr_cases [OF this]
  obtain res s' where pair: "projr ?run = (res, s')" by (cases "projr ?run")
  show thesis
    using facts unfolding pair snd_conv by (elim conjE) (rule that)
qed

section \<open>Properties\<close>



text \<open>
  C24: While something is pending in the scale expectations, a pass only reads: it gets the resource and the
  time, calls nothing else, leaves the recorded events, the pending names and the resource versions as
  they are, and asks to be called again after one microsecond less the time since the first failing
  check, a time that is never positive once a microsecond has passed.
\<close>

theorem reconcile_waits_without_writing:
  assumes "get_iu (e_api E) (req_namespace req) (req_name req) (world s) = (Inr iu, w1)"
    and "as_selector (e_meta E) (sp_selector (iu_spec iu)) = Inr sel"
    and "key = request_key (e_meta E) req" and "pending_names (scale_exps s) key a \<noteq> {||}"
    and "clock_now (e_api E) w1 = (t1, w2)" and "clock_now (e_api E) w2 = (t2, w3)"
    and "since = (if unsatisfied_since (scale_exps s) key = 0 then t1 else unsatisfied_since (scale_exps s) key)"
  shows "\<exists>s'. Reconcile E req s = Inr (requeue (1000 - (t2 - since)), s') \<and> world s' = w3 \<and>
    events s' = events s \<and> rv_exps s' = rv_exps s \<and>
    pending_names (scale_exps s') = pending_names (scale_exps s) \<and> unsatisfied_since (scale_exps s') key = since"
proof -
  let ?s1 = "s\<lparr>world := w1\<rparr>"
  have not_sat: "\<not> fst (fst (SatisfiedExpectations cf t1 t2 (scale_exps s) key))" for cf
    using assms(4) by (auto simp: SatisfiedExpectations_fst)
  obtain ok d dirty c where sat: "SatisfiedExpectations (e_create_first E) t1 t2 (scale_exps s) key = ((ok, d, dirty), c)"
    by (metis surj_pair)
  have ok: "\<not> ok" "d = t2 - since" "unsatisfied_since c key = since"
    using not_sat [of "e_create_first E"] SatisfiedExpectations_duration [OF not_sat, of "e_create_first E"] assms(7)
    by (simp_all add: sat)
  have pend: "pending_names c = pending_names (scale_exps s)"
    using pending_names_Satisfied [of "e_create_first E" t1 t2 "scale_exps s" key] by (simp add: sat)
  have "check_scale (e_api E) (e_create_first E) key ?s1 = ((ok, d), s\<lparr>world := w3, scale_exps := c\<rparr>)"
    by (simp add: check_scale_def on_world_def assms(5,6) sat)
  then have "reconcile_body E req s = Inr (requeue (1000 - (t2 - since)), s\<lparr>world := w3, scale_exps := c\<rparr>)"
    using ok(1,2) assms(2) by (simp add: reconcile_body_def on_world_def assms(1) flip: assms(3))
  then show ?thesis
    by (simp add: Reconcile_def pend ok(3))
qed

theorem reconcile_waits_without_writing_witness:
  "\<exists>s'. Reconcile sample_env sample_request (expect_scale ''ns/web'' Create ''web-a'' sample_sys) =
     Inr (requeue 999, s') \<and> events s' = []"
proof -
  let ?s = "expect_scale ''ns/web'' Create ''web-a'' sample_sys"
  have get: "get_iu (e_api sample_env) (req_namespace sample_request) (req_name sample_request) (world ?s) =
      (Inr (sample_iu (Some 1) (sample_rolling 1 1)), Suc 0)"
    by (simp add: sample_env_def sample_api_def sample_sys_def)
  have sel: "as_selector (e_meta sample_env) (sp_selector (iu_spec (sample_iu (Some 1) (sample_rolling 1 1)))) =
      Inr ''app=web''"
    by (simp add: sample_env_def sample_meta_lib_def sample_iu_def)
  have key: "''ns/web'' = request_key (e_meta sample_env) sample_request" by code_simp
  have pend: "pending_names (scale_exps ?s) ''ns/web'' Create \<noteq> {||}" by (simp add: pending_names_simps)
  have clock: "clock_now (e_api sample_env) (Suc 0) = (1001, Suc (Suc 0))"
    "clock_now (e_api sample_env) (Suc (Suc 0)) = (1002, Suc (Suc (Suc 0)))"
    by (simp_all add: sample_env_def sample_api_def)
  have since: "(if unsatisfied_since (scale_exps ?s) ''ns/web'' = 0 then 1001
      else unsatisfied_since (scale_exps ?s) ''ns/web'') = 1001"
    by (simp add: unsatisfied_since_def ExpectScale_def sample_sys_def NewScaleExpectations_def Let_def)
  have none: "events ?s = []" by (simp add: sample_sys_def)
  from reconcile_waits_without_writing [OF get sel key pend clock refl, unfolded since none] show ?thesis
    by auto
qed

text \<open>
  C23: The revisions a pass works with.  The update revision always holds the data of the current template,
  whether it was found, renumbered or created; when the template is that of the newest revision nothing
  is written, and an older equal revision is brought back under the next number.  The current revision
  is the one the status names, or the update revision when that one is gone.
\<close>

theorem active_revisions_hold_current_template:
  assumes "getActiveRevisions E iu revs w = Inr (Inr (cur, upd, cc), w')"
    and "NewRevision (e_codec E) (e_history E) iu (NextRevision revs)
      (Some (case st_collision_count (iu_status iu) of Some c \<Rightarrow> c | None \<Rightarrow> 0)) = Inr (Inr new)"
    and "history_contract (e_history E)" and "\<And>a b. equal_revision (e_history E) a b \<Longrightarrow> rev_data a = rev_data b"
    and "revision_contract (e_api E)" and "retry_contract (e_retry_revision E)" and "data_contract (e_api E) D"
    and "list_all (\<lambda>r. rev_data r = D (rev_name r)) revs"
  shows "rev_data upd = rev_data new \<and>
    (upd = last revs \<and> revs \<noteq> [] \<and> w' = w \<or> rev_revision upd = rev_revision new \<or>
     list_all (\<lambda>r. \<not> equal_revision (e_history E) r new) revs) \<and>
    (cur \<in> set revs \<and> rev_name cur = st_current_revision (iu_status iu) \<or>
     cur = upd \<and> list_all (\<lambda>r. rev_name r \<noteq> st_current_revision (iu_status iu)) revs)"
proof -
  let ?c = "case st_collision_count (iu_status iu) of Some c \<Rightarrow> c | None \<Rightarrow> 0"
  obtain found w1 where f: "find_update_revision E iu revs new ?c w = Inr (found, w1)"
    using assms(1,2) by (cases "find_update_revision E iu revs new ?c w") (auto simp: getActiveRevisions_def Let_def)
  obtain u c where fc: "found = Inr (u, c)"
    using assms(1,2) f by (cases found) (auto simp: getActiveRevisions_def Let_def)
  from assms(1,2) f fc have r: "upd = u" "cc = c" "w' = w1"
    "cur = (case find (\<lambda>r. rev_name r = st_current_revision (iu_status iu)) revs of Some r \<Rightarrow> r | None \<Rightarrow> upd)"
    by (auto simp: getActiveRevisions_def Let_def)
  have cur: "cur \<in> set revs \<and> rev_name cur = st_current_revision (iu_status iu) \<or>
     cur = upd \<and> list_all (\<lambda>r. rev_name r \<noteq> st_current_revision (iu_status iu)) revs"
    using r(4) by (auto simp: list_all_iff find_Some_iff find_None_iff split: option.splits)
  from find_update_revision_data [OF f [unfolded fc] assms(3-8)] r cur show ?thesis by blast
qed

theorem active_revisions_hold_current_template_witness:
  "\<exists>cur upd cc w'. getActiveRevisions sample_env (sample_iu (Some 1) None) [sample_revision ''web-r1'' 1 ''d1''] 0
      = Inr (Inr (cur, upd, cc), w') \<and> rev_data upd = ''nginx:1''"
proof -
  let ?run = "getActiveRevisions sample_env (sample_iu (Some 1) None) [sample_revision ''web-r1'' 1 ''d1''] 0"
  let ?new = "NewRevision (e_codec sample_env) (e_history sample_env) (sample_iu (Some 1) None)
      (NextRevision [sample_revision ''web-r1'' 1 ''d1'']) (Some 0)"
  have "\<not> isl ?run" "\<not> isl (fst (projr ?run))" by code_simp+
  then obtain cur upd cc w' where run: "?run = Inr (Inr (cur, upd, cc), w')"
    by (cases ?run; cases "fst (projr ?run)") auto
  have "\<not> isl ?new" "\<not> isl (projr ?new)" by code_simp+
  then obtain new where new: "?new = Inr (Inr new)"
    by (cases ?new; cases "projr ?new") auto
  have "rev_data (projr (projr ?new)) = ''nginx:1''" by code_simp
  then have data: "rev_data new = ''nginx:1''" by (simp add: new)
  have status: "(case st_collision_count (iu_status (sample_iu (Some 1) None)) of Some c \<Rightarrow> c | None \<Rightarrow> 0) = 0"
    by (simp add: sample_iu_def sample_status_def)
  have env: "history_contract (e_history sample_env)" "revision_contract (e_api sample_env)"
    "retry_contract (e_retry_revision sample_env)" "data_contract (e_api sample_env) (\<lambda>_. ''d1'')"
    "\<And>a b. equal_revision (e_history sample_env) a b \<Longrightarrow> rev_data a = rev_data b"
    using sample_history_contract attempts_contract
    by (simp_all add: sample_env_def revision_contract_def data_contract_def sample_api_def sample_revision_def
        sample_history_lib_def)
  have data1: "list_all (\<lambda>r. rev_data r = ''d1'') [sample_revision ''web-r1'' 1 ''d1'']"
    by (simp add: sample_revision_def)
  from active_revisions_hold_current_template [OF run _ env(1,5,2,3,4) data1, unfolded status, OF new] data run
  show ?thesis by metis
qed

text \<open>
  C28: Truncating the history deletes exactly the oldest unused revisions above the limit (ten when none is
  set): an unused revision is neither the current nor the update revision and no pod carries it; of
  the unused ones the newest \<open>limit\<close> stay, and no revision that goes is newer than one that stays.
\<close>

theorem truncate_history_deletes_oldest_unused:
  assumes "limit = (case sp_revision_history_limit (iu_spec iu) of None \<Rightarrow> 10 | Some l \<Rightarrow> sint l)" and "0 \<le> limit"
    and "sorted_wrt (\<lambda>a b. sint (rev_revision a) \<le> sint (rev_revision b)) revisions"
    and "unused = filter (\<lambda>r. rev_name r \<noteq> rev_name current \<and> rev_name r \<noteq> rev_name update \<and>
      list_all (\<lambda>p. \<not> EqualToRevisionHash (pod_labels p) (rev_name r)) pods) revisions"
  shows "\<exists>old kept. unused = old @ kept \<and> int (length kept) = min limit (int (length unused)) \<and>
    truncateHistory E iu pods revisions current update w = delete_revisions (e_api E) (map Some old) w \<and>
    (\<exists>r. delete_revisions (e_api E) (map Some old) w = Inr r) \<and>
    list_all (\<lambda>r. list_all (\<lambda>r'. sint (rev_revision r) \<le> sint (rev_revision r')) kept) old"
proof -
  have u: "unused = no_live_revisions pods revisions current update"
    unfolding assms(4) no_live_revisions_def
    by (rule filter_cong) (auto simp: list_all_iff list_ex_iff is_pod_update_def)
  have sorted: "sorted_wrt (\<lambda>a b. sint (rev_revision a) \<le> sint (rev_revision b)) unused"
    unfolding assms(4) by (rule sorted_wrt_filter [OF assms(3)])
  let ?n = "length unused - nat limit"
  have split: "unused = take ?n unused @ drop ?n unused" by simp
  have "list_all (\<lambda>r. list_all (\<lambda>r'. sint (rev_revision r) \<le> sint (rev_revision r')) (drop ?n unused)) (take ?n unused)"
    using sorted by (subst (asm) split) (simp only: sorted_wrt_append list_all_iff ball_simps, blast)
  moreover have "int (length (drop ?n unused)) = min limit (int (length unused))" using assms(2) by simp
  ultimately show ?thesis
    by (intro exI [of _ "take ?n unused"] exI [of _ "drop ?n unused"] conjI truncateHistory_within [OF assms(1,2) u]
        delete_revisions_returns) simp_all
qed

theorem truncate_history_deletes_oldest_unused_witness:
  "\<exists>old kept. [sample_revision ''web-a'' 1 ''x'', sample_revision ''web-b'' 2 ''y''] = old @ kept \<and> length kept = 1"
proof -
  let ?iu = "(sample_iu (Some 1) None)\<lparr>iu_spec := (iu_spec (sample_iu (Some 1) None))\<lparr>sp_revision_history_limit := Some 1\<rparr>\<rparr>"
  let ?r = "\<lambda>n k. sample_revision n k ''x''"
  let ?revs = "[sample_revision ''web-a'' 1 ''x'', sample_revision ''web-b'' 2 ''y'', sample_revision ''web-c'' 3 ''z'']"
  let ?c = "sample_revision ''web-c'' 3 ''z''"
  have limit: "1 = (case sp_revision_history_limit (iu_spec ?iu) of None \<Rightarrow> 10 | Some l \<Rightarrow> sint l)" "0 \<le> (1 :: int)"
    by simp_all
  have sorted: "sorted_wrt (\<lambda>a b. sint (rev_revision a) \<le> sint (rev_revision b)) ?revs"
    by (simp add: sample_revision_def)
  have unused: "[sample_revision ''web-a'' 1 ''x'', sample_revision ''web-b'' 2 ''y''] =
      filter (\<lambda>r. rev_name r \<noteq> rev_name ?c \<and> rev_name r \<noteq> rev_name ?c \<and>
        list_all (\<lambda>p. \<not> EqualToRevisionHash (pod_labels p) (rev_name r)) []) ?revs"
    by (simp add: sample_revision_def)
  from truncate_history_deletes_oldest_unused [OF limit sorted unused, of sample_env 0] show ?thesis
    by auto
qed



end
