(* ===== verification/Execution.thy ===== *)
theory Execution
  imports Controller
begin

text \<open>
  The controller over time: passes of the reconcile loop, watch events and everything else that
  happens in between, as a step relation, and the account of what the controller still has to see.
\<close>

section \<open>Steps\<close>

text \<open>
  \<open>Passed\<close> is a pass that returned, with the events it recorded, \<open>Missing\<close> a pass that found its
  resource gone, \<open>Shown\<close> a watch event.  \<open>Restarted\<close> is a new process, whose stores are empty.
  \<open>Elsewhere\<close> is anything that leaves the pending names as they
  are: other clients of the API server, the clock, the rest of the process.
\<close>

datatype label = Passed request "event list" | Missing request | Shown pod_event | Restarted | Elsewhere

definition vanished :: "'w env \<Rightarrow> request \<Rightarrow> 'w \<Rightarrow> bool" where
  "vanished E req w \<longleftrightarrow> fst (get_iu (e_api E) (req_namespace req) (req_name req) w) = Inl (ApiError NotFound)"

inductive step :: "'w env \<Rightarrow> 'l limiter_lib \<Rightarrow> ('w, 'l) handler \<Rightarrow> label \<Rightarrow> ('w, 'l) handler \<Rightarrow> bool"
  for E :: "'w env" and Q :: "'l limiter_lib" where
  passed: "Reconcile E req (eh_sys h) = Inr (res, s') \<Longrightarrow> \<not> vanished E req (world (eh_sys h)) \<Longrightarrow>
    new = drop (length (events (eh_sys h))) (events s') \<Longrightarrow> step E Q h (Passed req new) (h\<lparr>eh_sys := s'\<rparr>)"
| missing: "Reconcile E req (eh_sys h) = Inr (res, s') \<Longrightarrow> vanished E req (world (eh_sys h)) \<Longrightarrow>
    step E Q h (Missing req) (h\<lparr>eh_sys := s'\<rparr>)"
| shown: "h' = handle_event (e_meta E) (e_api E) Q (create_first, e) h \<Longrightarrow> step E Q h (Shown e) h'"
| restarted: "scale_exps (eh_sys h') = NewScaleExpectations \<Longrightarrow> rv_exps (eh_sys h') = NewResourceVersionExpectation \<Longrightarrow>
    durations (eh_sys h') = Map.empty \<Longrightarrow> step E Q h Restarted h'"
| elsewhere: "pending_names (scale_exps s') = pending_names (scale_exps (eh_sys h)) \<Longrightarrow>
    step E Q h Elsewhere (h\<lparr>eh_sys := s'\<rparr>)"

inductive_cases step_cases: "step E Q h l h'"

inductive execution ::
  "'w env \<Rightarrow> 'l limiter_lib \<Rightarrow> ('w, 'l) handler \<Rightarrow> label list \<Rightarrow> ('w, 'l) handler \<Rightarrow> bool"
  for E :: "'w env" and Q :: "'l limiter_lib" and h0 :: "('w, 'l) handler" where
  start: "execution E Q h0 [] h0"
| next_step: "execution E Q h0 ls h \<Longrightarrow> step E Q h l h' \<Longrightarrow> execution E Q h0 (ls @ [l]) h'"

inductive_cases execution_snoc: "execution E Q h0 (ls @ [l]) h'"

section \<open>The account of unseen changes\<close>

text \<open>What the history says the controller has still to see, without any cache.\<close>

fun reason_of :: "scale_action \<Rightarrow> string" where
  "reason_of Create = ''SuccessfulCreate''"
| "reason_of Delete = ''SuccessfulDelete''"

fun account :: "meta_lib \<Rightarrow> string \<Rightarrow> scale_action \<Rightarrow> label \<Rightarrow> string fset \<Rightarrow> string fset" where
  "account M k a (Passed req new) U =
     (if request_key M req = k then U |\<union>| fset_of_list (event_objects (reason_of a) new) else U)"
| "account M k a (Missing req) U = (if request_key M req = k then {||} else U)"
| "account M k a (Shown e) U = U |-| event_shows M e k a"
| "account M k a Restarted U = {||}"
| "account M k a Elsewhere U = U"

definition unseen :: "meta_lib \<Rightarrow> label list \<Rightarrow> string \<Rightarrow> scale_action \<Rightarrow> string fset" where
  "unseen M ls k a = fold (account M k a) ls {||}"

text \<open>
  A later step settles a change: an event shows the pod, or the resource itself has vanished, or the
  process is restarted, which forgets it.
\<close>

fun settles :: "meta_lib \<Rightarrow> string \<Rightarrow> scale_action \<Rightarrow> string \<Rightarrow> label \<Rightarrow> bool" where
  "settles M k a n (Shown e) = (n |\<in>| event_shows M e k a)"
| "settles M k a n (Missing req) = (request_key M req = k)"
| "settles M k a n Restarted = True"
| "settles M k a n _ = False"

fun changes :: "meta_lib \<Rightarrow> string \<Rightarrow> scale_action \<Rightarrow> label \<Rightarrow> string list" where
  "changes M k a (Passed req new) = (if request_key M req = k then event_objects (reason_of a) new else [])"
| "changes M k a _ = []"

fun contract_for :: "'w env \<Rightarrow> label \<Rightarrow> bool" where
  "contract_for E (Passed req new) = env_contract E req"
| "contract_for E (Missing req) = env_contract E req"
| "contract_for E _ = True"

section \<open>Lemmas\<close>

lemma Reconcile_pending:
  assumes run: "Reconcile E req s = Inr (res, s')" and key: "key = request_key (e_meta E) req"
    and contract: "env_contract E req"
  shows "events s' \<noteq> events s \<Longrightarrow> pending_names (scale_exps s) key a = {||}"
    and "pending_names (scale_exps s') k a =
      (if k \<noteq> key then pending_names (scale_exps s) k a
       else if vanished E req (world s) then {||}
       else pending_names (scale_exps s) k a |\<union>| fset_of_list (new_objects (reason_of a) s s'))"
proof -
  from Reconcile_body [OF run] obtain s1 where body: "reconcile_body E req s = Inr (res, s1)"
    and s': "s' = snd (pop_duration key s1)" unfolding key by blast
  have pop: "events s' = events s1" "scale_exps s' = scale_exps s1" by (simp_all add: s')
  note account = Reconcile_account [OF run key contract]
  then show "events s' \<noteq> events s \<Longrightarrow> pending_names (scale_exps s) key a = {||}"
    by (simp split: if_splits)
  from body key show "pending_names (scale_exps s') k a =
      (if k \<noteq> key then pending_names (scale_exps s) k a
       else if vanished E req (world s) then {||}
       else pending_names (scale_exps s) k a |\<union>| fset_of_list (new_objects (reason_of a) s s'))"
  proof (cases rule: reconcile_body_cases)
    case gone
    then show ?thesis using pop by (simp add: vanished_def pending_names_simps)
  next
    case early
    then show ?thesis using pop by (simp add: vanished_def pending_names_simps new_objects_same)
  next
    case pods
    with account have "keeps_account key s s'" by simp
    with pods show ?thesis
      by (cases a) (auto simp: keeps_account_def vanished_def)
  qed
qed

lemma pending_names_new: "pending_names NewScaleExpectations k a = {||}"
  by (simp add: NewScaleExpectations_def pending_names_def)

lemma step_account:
  assumes "step E Q h l h'" and "contract_for E l"
  shows "pending_names (scale_exps (eh_sys h')) k a = account (e_meta E) k a l (pending_names (scale_exps (eh_sys h)) k a)"
  using assms
  by (cases rule: step.cases)
    (simp_all add: Reconcile_pending(2) [OF _ refl] handle_event_pending new_objects_def
      pending_names_new)

lemma execution_account:
  assumes "execution E Q h0 ls h" and "list_all (contract_for E) ls"
  shows "pending_names (scale_exps (eh_sys h)) k a =
    fold (account (e_meta E) k a) ls (pending_names (scale_exps (eh_sys h0)) k a)"
  using assms by (induction rule: execution.induct) (simp_all add: step_account)

lemma in_account:
  "n |\<in>| account M k a l U \<longleftrightarrow> n \<in> set (changes M k a l) \<or> n |\<in>| U \<and> \<not> settles M k a n l"
  by (cases l) (auto simp: fset_of_list.rep_eq)

lemma in_unseen:
  "n |\<in>| fold (account M k a) ls U \<longleftrightarrow>
     n |\<in>| U \<and> \<not> list_ex (settles M k a n) ls \<or>
     (\<exists>t1 l t2. ls = t1 @ l # t2 \<and> n \<in> set (changes M k a l) \<and> \<not> list_ex (settles M k a n) t2)"
proof (induction ls rule: rev_induct)
  case (snoc x ls)
  have "(\<exists>t1 l t2. ls @ [x] = t1 @ l # t2 \<and> n \<in> set (changes M k a l) \<and> \<not> list_ex (settles M k a n) t2) \<longleftrightarrow>
      n \<in> set (changes M k a x) \<or>
      (\<exists>t1 l t2. ls = t1 @ l # t2 \<and> n \<in> set (changes M k a l) \<and> \<not> list_ex (settles M k a n) t2) \<and> \<not> settles M k a n x"
    (is "?split \<longleftrightarrow> ?now \<or> ?before \<and> _")
  proof
    assume ?split
    then obtain t1 l t2 where t: "ls @ [x] = t1 @ l # t2" "n \<in> set (changes M k a l)" "\<not> list_ex (settles M k a n) t2"
      by blast
    then show "?now \<or> ?before \<and> \<not> settles M k a n x"
      by (cases t2 rule: rev_cases) auto
  next
    assume "?now \<or> ?before \<and> \<not> settles M k a n x"
    then show ?split
    proof
      assume ?now
      then show ?split by (intro exI [of _ ls] exI [of _ x] exI [of _ "[]"]) simp
    next
      assume "?before \<and> \<not> settles M k a n x"
      then obtain t1 l t2 where "ls = t1 @ l # t2" "n \<in> set (changes M k a l)" "\<not> list_ex (settles M k a n) t2"
        "\<not> settles M k a n x" by blast
      then show ?split by (intro exI [of _ t1] exI [of _ l] exI [of _ "t2 @ [x]"]) simp
    qed
  qed
  with snoc show ?case by (auto simp: in_account)
qed simp

lemma execution_split:
  assumes "execution E Q h0 (t1 @ l # t2) h"
  obtains h1 h2 where "execution E Q h0 t1 h1" "step E Q h1 l h2" "execution E Q h2 t2 h"
proof -
  have "\<exists>h1 h2. execution E Q h0 t1 h1 \<and> step E Q h1 l h2 \<and> execution E Q h2 t2 h"
    using assms
  proof (induction t2 arbitrary: h rule: rev_induct)
    case Nil
    then show ?case by (auto elim!: execution_snoc intro: start)
  next
    case (snoc x t2)
    from snoc.prems have "execution E Q h0 ((t1 @ l # t2) @ [x]) h" by simp
    then obtain h' where "execution E Q h0 (t1 @ l # t2) h'" "step E Q h' x h" by (rule execution_snoc)
    with snoc.IH next_step show ?case by blast
  qed
  then show thesis using that by blast
qed

end
