(* ===== verification/Manager_Setup.thy ===== *)
theory Manager_Setup
  imports Controller
begin

text \<open>
  \<open>SetupWithManager\<close>: the index by which \<open>getOwnedPods\<close> finds the pods of a resource, the watches, and
  what the index means for adoption.
\<close>

section \<open>The index\<close>

definition owner_uid_index :: "event_object \<Rightarrow> string list" where
  "owner_uid_index rawObj = (case rawObj of
     PodObject p \<Rightarrow> map or_uid (pod_owners p)
   | OtherObject \<Rightarrow> [])"

text \<open>
  The manager of the controller runtime: registering an index, and building the controller that
  watches the resources, with a predicate on their updates, and the pods, with the event handler.
  The predicate only logs a change of the replicas: every update is queued.
\<close>

record 'm manager_lib =
  index_field :: "string \<Rightarrow> (event_object \<Rightarrow> string list) \<Rightarrow> 'm \<Rightarrow> go_error option \<times> 'm"
  build_controller :: "(inplaceu option \<Rightarrow> inplaceu option \<Rightarrow> bool) \<Rightarrow> 'm \<Rightarrow> go_error option \<times> 'm"

definition inplaceu_update_passes :: "inplaceu option \<Rightarrow> inplaceu option \<Rightarrow> bool" where
  "inplaceu_update_passes objectOld objectNew = True"

definition SetupWithManager :: "'m manager_lib \<Rightarrow> 'm \<Rightarrow> go_error option \<times> 'm" where
  "SetupWithManager G mgr =
     (case index_field G ''ownerRefUID'' owner_uid_index mgr of
        (Some err, mgr) \<Rightarrow> (Some err, mgr)
      | (None, mgr) \<Rightarrow> build_controller G inplaceu_update_passes mgr)"

text \<open>
  Documented behaviour of a cached reader: a list with a namespace and a matching field returns the
  objects of that namespace whose index holds the value.
\<close>

definition index_contract :: "'w api \<Rightarrow> bool" where
  "index_contract A \<longleftrightarrow>
     (\<forall>ns uid w ps w'. list_owned_pods A ns uid w = (Inr ps, w') \<longrightarrow>
        list_all (\<lambda>p. pod_namespace p = ns \<and> uid \<in> set (owner_uid_index (PodObject p))) ps)"

section \<open>Lemmas\<close>

lemma index_contractD:
  "index_contract A \<Longrightarrow> list_owned_pods A ns uid w = (Inr ps, w') \<Longrightarrow> p \<in> set ps \<Longrightarrow>
     pod_namespace p = ns \<and> uid \<in> set (owner_uid_index (PodObject p))"
  unfolding index_contract_def list_all_iff by blast

lemma claim_each_origin:
  assumes "identity_contract E f"
    and "claim_each M (e_refs E) (e_api E) m objs claimed errs mgr w = ((claimed', errs'), mgr', w')"
  shows "f ` set claimed' \<subseteq> f ` set claimed \<union> f ` set objs"
  using assms(2)
proof (induction objs arbitrary: claimed errs mgr w)
  case (Cons obj objs)
  obtain ok err obj' m1 w1 where one: "claimObject M (e_refs E) (e_api E) m obj mgr w = (((ok, err), obj'), m1, w1)"
    by (metis prod.collapse)
  have same: "ok \<Longrightarrow> f obj' = f obj" using claimObject_identity [OF assms(1)] one by (cases ok) auto
  show ?case
  proof (cases err)
    case (Some e)
    with Cons.prems one have "claim_each M (e_refs E) (e_api E) m objs claimed (errs @ [e]) m1 w1 =
      ((claimed', errs'), mgr', w')" by simp
    from Cons.IH [OF this] show ?thesis by auto
  next
    case None
    let ?claimed = "if ok then claimed @ [obj'] else claimed"
    have "claim_each M (e_refs E) (e_api E) m objs ?claimed errs m1 w1 = ((claimed', errs'), mgr', w')"
      using Cons.prems(1) one None by simp
    from Cons.IH [OF this] same show ?thesis by (auto split: if_splits)
  qed
qed simp

lemma claimPods_origin:
  assumes "identity_contract E f" and "claimPods E iu owned s = (Inr claimed, s')"
  shows "f ` set claimed \<subseteq> f ` set owned"
proof -
  from assms(2) obtain mgr errs mgr' w' where
    "claim_each (e_meta E) (e_refs E) (e_api E) (match_filters (e_meta E) mgr []) owned [] [] mgr (world s)
      = ((claimed, errs), mgr', w')"
    by (auto simp: claimPods_def ClaimOwnedObjects_def split: prod.splits sum.splits option.splits)
  from claim_each_origin [OF assms(1) this] show ?thesis by simp
qed

section \<open>Properties\<close>

text \<open>
  C26: The pods a pass works on all named the resource among their owners before the pass: \<open>getOwnedPods\<close>
  lists by owner uid, so \<open>claimPods\<close> never gets to see a pod without owner references, and the
  adoption of matching orphans, which the event handler wakes the resource for, never happens.
\<close>

theorem orphans_are_never_claimed:
  assumes "getOwnedPods E iu s = (Inr (owned, inactive), s1)" and "claimPods E iu owned s1 = (Inr claimed, s2)"
    and "index_contract (e_api E)" and "identity_contract E pod_uid"
  shows "list_all (\<lambda>p. list_ex (\<lambda>q. pod_uid q = pod_uid p \<and> pod_namespace q = iu_namespace iu \<and>
      is_pod_active (e_pods E) q \<and> iu_uid iu \<in> set (owner_uid_index (PodObject q))) owned) claimed"
proof -
  from getOwnedPods_Inr [OF assms(1)] obtain ps w where
    "list_owned_pods (e_api E) (iu_namespace iu) (iu_uid iu) (world s) = (Inr ps, w)"
    "owned = filter (is_pod_active (e_pods E)) ps" by blast
  with index_contractD [OF assms(3)] have "list_all (\<lambda>q. pod_namespace q = iu_namespace iu \<and>
      is_pod_active (e_pods E) q \<and> iu_uid iu \<in> set (owner_uid_index (PodObject q))) owned"
    by (auto simp: list_all_iff)
  with claimPods_origin [OF assms(4,2)] show ?thesis
    by (fastforce simp: list_all_iff list_ex_iff)
qed

definition indexed_env :: "nat env" where
  "indexed_env = sample_env\<lparr>e_api := sample_api\<lparr>list_owned_pods :=
     (\<lambda>ns uid w. (Inr [(app_pod ''web-xxxxa'' [sample_owner\<lparr>or_uid := uid\<rparr>])\<lparr>pod_namespace := ns\<rparr>], Suc w))\<rparr>\<rparr>"

definition indexed_iu :: inplaceu where
  "indexed_iu = sample_iu (Some 1) None"

theorem orphans_are_never_claimed_witness:
  "\<exists>owned inactive claimed s1 s2. getOwnedPods indexed_env indexed_iu sample_sys = (Inr (owned, inactive), s1) \<and>
     claimPods indexed_env indexed_iu owned s1 = (Inr claimed, s2) \<and> length claimed = 1 \<and>
     list_all (\<lambda>p. list_ex (\<lambda>q. pod_uid q = pod_uid p \<and>
       iu_uid indexed_iu \<in> set (owner_uid_index (PodObject q))) owned) claimed"
proof -
  let ?own = "getOwnedPods indexed_env indexed_iu sample_sys"
  let ?claim = "claimPods indexed_env indexed_iu (fst (projr (fst ?own))) (snd ?own)"
  have "case fst ?own of Inl e \<Rightarrow> False | Inr r \<Rightarrow> True" by code_simp
  then have own: "?own = (Inr (fst (projr (fst ?own)), snd (projr (fst ?own))), snd ?own)"
    by (cases ?own; cases "fst ?own") auto
  have "case fst ?claim of Inl e \<Rightarrow> False | Inr r \<Rightarrow> length r = 1" by code_simp
  then have claim: "?claim = (Inr (projr (fst ?claim)), snd ?claim) \<and> length (projr (fst ?claim)) = 1"
    by (cases ?claim; cases "fst ?claim") auto
  have index: "index_contract (e_api indexed_env)"
    by (simp add: index_contract_def indexed_env_def owner_uid_index_def app_pod_def)
  have identity: "identity_contract indexed_env pod_uid"
    by (simp add: identity_contract_def indexed_env_def sample_env_def sample_api_def sample_ref_lib_def)
  have "list_all (\<lambda>p. list_ex (\<lambda>q. pod_uid q = pod_uid p \<and>
      iu_uid indexed_iu \<in> set (owner_uid_index (PodObject q))) (fst (projr (fst ?own)))) (projr (fst ?claim))"
    using orphans_are_never_claimed [OF own conjunct1 [OF claim] index identity]
    by (auto simp: list_all_iff list_ex_iff)
  with own claim show ?thesis by blast
qed

end
