(* ===== verification/Pass_Returns.thy ===== *)
theory Pass_Returns
  imports Controller
begin

text \<open>
  A pass of the reconcile loop always returns: it does not panic and none of its loops goes on for
  ever.  Every dereference, type assertion, slice expression and unbounded loop of the code is a
  value of \<open>go_panic\<close> in the models of the components; here each component is shown not to reach it,
  under what it needs of the resource, of the libraries and of the stored revisions.
\<close>

section \<open>What a pass relies on\<close>

text \<open>The fields the code dereferences are set, and the history limit is not negative.\<close>

definition sizes_set :: "inplaceu \<Rightarrow> bool" where
  "sizes_set iu \<longleftrightarrow> sp_replicas (iu_spec iu) \<noteq> None \<and> ds_rolling_update (sp_strategy (iu_spec iu)) \<noteq> None"

definition complete_spec :: "inplaceu \<Rightarrow> bool" where
  "complete_spec iu \<longleftrightarrow> sizes_set iu \<and>
     (case sp_revision_history_limit (iu_spec iu) of None \<Rightarrow> True | Some l \<Rightarrow> 0 \<le> sint l)"

text \<open>
  For a set \<open>good\<close> of encoded pod templates: they do not decode to the JSON document \<open>null\<close>, and the
  patch between two of them replaces the image of a container by a string.
\<close>

definition patch_safe :: "patch_lib \<Rightarrow> (string \<Rightarrow> bool) \<Rightarrow> bool" where
  "patch_safe P good \<longleftrightarrow>
     (\<forall>a. good a \<longrightarrow> unmarshal_template P a \<noteq> Inr None) \<and>
     (\<forall>a b ops t op. good a \<longrightarrow> good b \<longrightarrow> create_patch P a b = Inr ops \<longrightarrow> unmarshal_template P a = Inr (Some t) \<longrightarrow>
        op \<in> set ops \<longrightarrow> image_path_op t op \<longrightarrow> op_value op \<noteq> OtherValue)"

text \<open>
  The revisions of the server hold such templates, and so does the patch made of a resource.
\<close>

definition revision_data_contract :: "'w env \<Rightarrow> (string \<Rightarrow> bool) \<Rightarrow> bool" where
  "revision_data_contract E good \<longleftrightarrow>
     (\<forall>iu patch. getPatch (e_codec E) iu = Inr (Inr patch) \<longrightarrow> good patch) \<and>
     (\<forall>iu lbls patch n c r. new_controller_revision (e_history E) iu lbls patch n c = Inr r \<longrightarrow>
        rev_data r = patch \<and> rev_revision r = n) \<and>
     (\<forall>ns sel w rs w'. list_revisions (e_api E) ns sel w = (Inr rs, w') \<longrightarrow> list_all (\<lambda>r. good (rev_data r)) rs) \<and>
     (\<forall>ns n w r w'. get_revision (e_api E) ns n w = (Inr r, w') \<longrightarrow> good (rev_data r)) \<and>
     (\<forall>r w r' w'. update_revision (e_api E) r w = (Inr r', w') \<longrightarrow> rev_data r' = rev_data r)"

text \<open>From every collision count on, some name is reached that the server does not report as taken.\<close>

definition name_found :: "'w env \<Rightarrow> bool" where
  "name_found E \<longleftrightarrow> (\<forall>parent r c. \<exists>n. \<forall>w.
     fst (create_revision (e_api E) (candidate (e_history E) parent r (c + of_nat n)) w) \<noteq> Inl (ApiError AlreadyExists))"

definition surroundings :: "'w env \<Rightarrow> (string \<Rightarrow> bool) \<Rightarrow> (pod_template \<Rightarrow> (string \<times> json) list) \<Rightarrow> bool" where
  "surroundings E good template_json \<longleftrightarrow>
     codec_contract (e_codec E) template_json \<and> history_contract (e_history E) \<and>
     revision_contract (e_api E) \<and> retry_contract (e_retry_revision E) \<and> name_found E \<and>
     patch_safe (e_patch E) good \<and> revision_data_contract E good"

section \<open>Lemmas\<close>

subsection \<open>Updating\<close>

lemma CalculateSpec_returns:
  assumes "patch_safe P good" and "\<And>r. oldR = Some r \<Longrightarrow> good (rev_data r)" and "good (rev_data new)"
  shows "\<exists>spec. CalculateSpec P oldR (Some new) = Inr spec"
proof (cases oldR)
  case None
  then show ?thesis by (simp add: CalculateSpec_def)
next
  case (Some old)
  note good = assms(2) [OF Some] assms(3)
  show ?thesis
  proof (cases "create_patch P (rev_data old) (rev_data new)")
    case (Inl e)
    with Some show ?thesis by (simp add: CalculateSpec_def)
  next
    case ops: (Inr ops)
    have some: "unmarshal_template P (rev_data r) \<noteq> Inr None" if "good (rev_data r)" for r
      using assms(1) that unfolding patch_safe_def by blast
    consider (bad) e where "unmarshal_template P (rev_data old) = Inl e \<or>
        unmarshal_template P (rev_data new) = Inl e"
      | (both) t t' where "unmarshal_template P (rev_data old) = Inr (Some t)"
          "unmarshal_template P (rev_data new) = Inr (Some t')"
      using some [OF good(1)] some [OF good(2)] by (metis obj_sumE option.exhaust)
    then show ?thesis
    proof cases
      case bad
      with Some ops some [OF good(1)] show ?thesis
        by (auto simp: CalculateSpec_def GetTemplateFromRevision_def split: sum.split option.split)
    next
      case both
      have "op_value op \<noteq> OtherValue" if "op \<in> set ops" "image_path_op t op" for op
        using assms(1) good ops both(1) that unfolding patch_safe_def by blast
      then have "\<not> image_path_op t op" if "find (\<lambda>op. \<not> metadata_op op \<and> \<not> image_op t op) ops = Some op" for op
        using that by (auto simp: find_Some_iff image_op_def)
      with Some show ?thesis
        unfolding Some calculate_spec_accepts [OF ops both refl]
        by (auto split: option.split sum.split)
    qed
  qed
qed

lemma updatePod_returns:
  assumes "patch_safe P good" and "list_all (\<lambda>r. good (rev_data r)) revs" and "good (rev_data up)"
  shows "\<not> isl (updatePod A P retry up revs p s)"
proof -
  have "good (rev_data r)" if "old_revision_of revs p = Some r" for r
    using that assms(2) by (auto simp: old_revision_of_def find_Some_iff list_all_iff)
  from CalculateSpec_returns [OF assms(1) this assms(3)] obtain spec where
    "CalculateSpec P (old_revision_of revs p) (Some up) = Inr spec" by blast
  then obtain can where can: "CanUpdateInPlace P (old_revision_of revs p) (Some up) = Inr can"
    by (simp add: CanUpdateInPlace_def)
  from inplace.upd_of_can [OF can, of A retry p "world s"] obtain res w where
    "Inplace_Update A P retry p (old_revision_of revs p) (Some up) (world s) = Inr (res, w)" by blast
  with can show ?thesis by (simp add: updatePod_def Let_def split: option.split)
qed

lemma update_each_returns:
  assumes "patch_safe P good" and "list_all (\<lambda>r. good (rev_data r)) revs" and "good (rev_data up)"
  shows "\<not> isl (update_each A P retry key up revs is pods s)"
proof (induction "is" arbitrary: pods s)
  case (Cons i "is")
  with updatePod_returns [OF assms] show ?case
    by (auto simp: Let_def isl_bindP split: option.splits)
qed simp

lemma Update_returns:
  assumes "patch_safe P good" and "list_all (\<lambda>r. good (rev_data r)) revs" and "good (rev_data up)"
    and "sizes_set iu"
  shows "\<not> isl (Update L M A P retry iu cur up revs pods s)"
proof -
  from assms(4) obtain rs ru where spec: "sp_replicas (iu_spec iu) = Some rs"
    "ds_rolling_update (sp_strategy (iu_spec iu)) = Some ru" by (auto simp: sizes_set_def)
  obtain d where d: "calculateDiffsWithExpectation L iu pods (rev_name cur) (rev_name up) = Inr d"
    using calculateDiffs_eq [OF spec] by blast
  have "0 \<le> updateNum d"
    using calculateDiffs_updates(1) [OF d spec] pod_quantities_nonneg(2) [of "rev_name up" pods] by simp
  from limitUpdateIndexes_spec [OF this] have "\<not> isl (limitUpdateIndexes d ws pods (rev_name up))" for ws
    by (metis sum.disc(2))
  with d show ?thesis
    by (simp add: Update_def Let_def isl_bindP update_each_returns [OF assms(1-3)])
qed

subsection \<open>The status, the history and the pods\<close>

lemma status_returns:
  assumes "sizes_set iu"
  shows "\<not> isl (UpdateInplaceuSetStatus L A retry iu st pods s)"
proof -
  from assms obtain rs where "sp_replicas (iu_spec iu) = Some rs" by (auto simp: sizes_set_def)
  then have "\<not> isl (calculateStatus L now iu st pods)" for now by (simp add: calculateStatus_def Let_def)
  then show ?thesis
    by (auto simp: UpdateInplaceuSetStatus_def isl_bindP split: prod.splits if_splits)
qed

lemma truncateHistory_returns:
  assumes "complete_spec iu"
  shows "\<not> isl (truncateHistory E iu pods revs cur up w)"
proof -
  let ?limit = "case sp_revision_history_limit (iu_spec iu) of None \<Rightarrow> 10 | Some l \<Rightarrow> sint l"
  have "0 \<le> ?limit" using assms by (auto simp: complete_spec_def split: option.splits)
  note run = truncateHistory_within [OF refl this refl, of E pods revs cur up w]
  from delete_revisions_returns show ?thesis unfolding run by (metis sum.disc(2))
qed

lemma syncInplaceu_returns:
  assumes "patch_safe (e_patch E) good" and "list_all (\<lambda>r. good (rev_data r)) revs" and "good (rev_data up)"
    and "\<And>iu'. ApplyRevision (e_codec E) iu up = Inr iu' \<Longrightarrow> sizes_set iu'"
    and "\<And>w. \<exists>n. draw (random_string (e_api E) LengthOfInstanceID) n w |\<notin>| existing_ids pods"
  shows "\<not> isl (syncInplaceu E iu st cur up revs pods s)"
proof -
  have "\<not> isl (Scale (e_pods E) (e_meta E) (e_api E) cs us c u pods s)"
    if "ApplyRevision (e_codec E) iu up = Inr us" for cs us c u s
  proof -
    from assms(4) [OF that] obtain ru where "ds_rolling_update (sp_strategy (iu_spec us)) = Some ru"
      by (auto simp: sizes_set_def)
    from scale_returns [OF assms(5) this] show ?thesis by (metis sum.disc(2))
  qed
  then show ?thesis
    by (auto simp: syncInplaceu_def Let_def isl_bindP Update_returns [OF assms(1-3) assms(4)] split: sum.splits prod.splits if_splits)
qed

lemma reconcile_pods_returns:
  assumes "patch_safe (e_patch E) good" and "list_all (\<lambda>r. good (rev_data r)) revs" and "good (rev_data up)"
    and "\<And>iu'. ApplyRevision (e_codec E) iu up = Inr iu' \<Longrightarrow> sizes_set iu'" and "complete_spec iu"
    and "\<And>w. \<exists>n. draw (random_string (e_api E) LengthOfInstanceID) n w |\<notin>| existing_ids pods"
  shows "\<not> isl (reconcile_pods E key iu cur up cc revs pods s)"
proof -
  have sizes: "sizes_set iu" using assms(5) by (simp add: complete_spec_def)
  have "\<not> isl (syncInplaceu E iu st cur up revs pods s)" for st s
    by (rule syncInplaceu_returns [OF assms(1-3) _ assms(6)]) (rule assms(4))
  then show ?thesis
    by (auto simp: reconcile_pods_def Let_def isl_bindP status_returns [OF sizes]
        truncateHistory_returns [OF assms(5)] split: option.splits prod.splits)
qed


subsection \<open>The revisions\<close>

lemma surroundingsD:
  assumes "surroundings E good template_json"
  shows "codec_contract (e_codec E) template_json" "history_contract (e_history E)"
    "revision_contract (e_api E)" "retry_contract (e_retry_revision E)" "name_found E"
    "patch_safe (e_patch E) good" "revision_data_contract E good"
  using assms by (simp_all add: surroundings_def)

lemma revision_data_contractD:
  assumes "revision_data_contract E good"
  shows "getPatch (e_codec E) iu = Inr (Inr patch) \<Longrightarrow> good patch"
    and "new_controller_revision (e_history E) iu lbls patch n c = Inr r \<Longrightarrow> rev_data r = patch \<and> rev_revision r = n"
    and "list_revisions (e_api E) ns sel w = (Inr rs, w') \<Longrightarrow> list_all (\<lambda>r. good (rev_data r)) rs"
    and "get_revision (e_api E) ns m w = (Inr r, w') \<Longrightarrow> good (rev_data r)"
    and "update_revision (e_api E) r' w = (Inr r, w') \<Longrightarrow> rev_data r = rev_data r'"
  using assms unfolding revision_data_contract_def by metis+

lemma renumbered_good:
  assumes "revision_data_contract E good" and "retry_contract retry" and "good (rev_data revision)"
    and "UpdateControllerRevision (e_api E) retry revision number w = ((clone, err), w')"
  shows "good (rev_data clone)"
proof -
  let ?fn = "renumber_attempt (e_api E) (rev_namespace revision) (rev_name revision) number"
  have step: "good (rev_data (fst s'))" if "good (rev_data (fst s))" "?fn s = (r, s')" for s r s'
    using that
    by (cases s) (auto simp: renumber_attempt_def write_clone_def
        dest: revision_data_contractD(4,5) [OF assms(1)] split: if_splits prod.splits sum.splits)
  from assms(4) have run: "retry ?fn (revision, w) = (err, (clone, w'))"
    by (auto simp: UpdateControllerRevision_def split: prod.splits)
  have "good (rev_data (fst (clone, w')))"
    by (rule retry_rule [where I = "\<lambda>s. good (rev_data (fst s))"
          and Q = "\<lambda>_ s. good (rev_data (fst s))", OF assms(2) _ _ _ run]) (use step assms(3) in auto)
  then show ?thesis by simp
qed

lemma NewRevision_returns:
  assumes "codec_contract C template_json"
  shows "\<not> isl (NewRevision C H iu number cc)"
proof -
  have "\<not> isl (getPatch C iu)"
  proof (cases "encode_iu C iu")
    case (Inr str)
    from getPatch_eq [OF assms this] show ?thesis by simp
  qed (simp add: getPatch_def)
  then show ?thesis by (simp add: NewRevision_def isl_bindP split: sum.split)
qed

text \<open>Whichever way the update revision is found, the step returns, and the revision it returns is good.\<close>

lemma find_update_revision_returns:
  assumes "surroundings E good template_json"
    and "list_all (\<lambda>r. good (rev_data r)) revs" and "good (rev_data new)"
  shows "\<exists>found w'. find_update_revision E iu revs new c w = Inr (found, w') \<and>
    (\<forall>upd cc. found = Inr (upd, cc) \<longrightarrow> good (rev_data upd))"
proof -
  note sur = surroundingsD [OF assms(1)]
  let ?H = "e_history E" and ?A = "e_api E"
  let ?eq = "filter (\<lambda>x. equal_revision ?H x new) revs"
  have eqs: "find_equal_revisions ?H revs new = ?eq"
    using sur(2) unfolding history_contract_def by blast
  show ?thesis
  proof (cases "?eq = []")
    case True
    from sur(5) obtain n where "\<And>w. fst (create_revision ?A (candidate ?H iu new (c + of_nat n)) w) \<noteq> Inl (ApiError AlreadyExists)"
      unfolding name_found_def by blast
    from create_loop_total [OF sur(3) this, of w] obtain res c' w' where
      "create_loop ?H ?A iu new c w = Some ((res, c'), w')"
      "case res of Inl e \<Rightarrow> True | Inr r \<Rightarrow> loop_result ?H iu new c r c'" by blast
    with True assms(3) show ?thesis
      by (cases res) (auto simp: find_update_revision_def eqs Let_def CreateControllerRevision_def loop_result_def)
  next
    case False
    let ?newest = "revs ! (length revs - 1)" and ?last = "?eq ! (length ?eq - 1)"
    have revs: "revs \<noteq> []" using False by auto
    from last_in_set [OF False] last_in_set [OF revs] have g: "good (rev_data ?last)" "good (rev_data ?newest)"
      using False revs assms(2) by (auto simp: last_conv_nth list_all_iff)
    obtain clone err w1 where u: "UpdateControllerRevision ?A (e_retry_revision E) ?last (rev_revision new) w
        = ((clone, err), w1)" by (metis surj_pair)
    from renumbered_good [OF sur(7,4) g(1) u] g u False revs show ?thesis
      by (cases "equal_revision ?H ?newest ?last"; cases err)
        (auto simp: find_update_revision_def eqs Let_def last_of_def)
  qed
qed

lemma getActiveRevisions_returns:
  assumes "surroundings E good template_json" and "list_all (\<lambda>r. good (rev_data r)) revs"
  shows "\<exists>active w'. getActiveRevisions E iu revs w = Inr (active, w') \<and>
    (\<forall>cur upd cc. active = Inr (cur, upd, cc) \<longrightarrow> good (rev_data upd))"
proof -
  note sur = surroundingsD [OF assms(1)]
  let ?c = "case st_collision_count (iu_status iu) of Some c \<Rightarrow> c | None \<Rightarrow> 0"
  obtain new where n: "NewRevision (e_codec E) (e_history E) iu (NextRevision revs) (Some ?c) = Inr new"
    using NewRevision_returns [OF sur(1)] by (metis Inr_eq)
  show ?thesis
  proof (cases new)
    case (Inl e)
    with n show ?thesis by (simp add: getActiveRevisions_def Let_def)
  next
    case (Inr r)
    have "getPatch (e_codec E) iu = Inr (Inr (rev_data r)) \<and> rev_revision r = NextRevision revs"
      by (rule NewRevision_data [OF n [unfolded Inr]]) (rule revision_data_contractD(2) [OF sur(7)])
    then have "good (rev_data r)" using revision_data_contractD(1) [OF sur(7)] by blast
    from find_update_revision_returns [OF assms this, of iu ?c w] obtain found w' where
      "find_update_revision E iu revs r ?c w = Inr (found, w')"
      "\<forall>upd cc. found = Inr (upd, cc) \<longrightarrow> good (rev_data upd)" by blast
    with n Inr show ?thesis by (cases found) (auto simp: getActiveRevisions_def Let_def)
  qed
qed

lemma listed_good:
  assumes "surroundings E good template_json"
    and "on_world (ListControllerRevisions M (e_api E) iu sel) s = (Inr rs, s')"
  shows "list_all (\<lambda>r. good (rev_data r)) (sort_revisions (e_history E) rs)"
proof -
  note sur = surroundingsD [OF assms(1)]
  from assms(2) obtain all w where "list_revisions (e_api E) (iu_namespace iu) sel (world s) = (Inr all, w)"
    "set rs \<subseteq> set all"
    by (auto simp: on_world_def ListControllerRevisions_def split: prod.splits sum.splits)
  with revision_data_contractD(3) [OF sur(7)] have "\<forall>r\<in>set rs. good (rev_data r)"
    by (fastforce simp: list_all_iff)
  moreover have "set (sort_revisions (e_history E) rs) = set rs"
    using sur(2) unfolding history_contract_def by (metis set_mset_mset)
  ultimately show ?thesis by (simp add: list_all_iff)
qed

subsection \<open>The pass\<close>

lemma reconcile_revisions_returns:
  assumes "surroundings E good template_json" and "complete_spec iu"
    and "\<And>r iu'. ApplyRevision (e_codec E) iu r = Inr iu' \<Longrightarrow> sizes_set iu'"
    and "\<And>w. \<exists>n. draw (random_string (e_api E) LengthOfInstanceID) n w |\<notin>| existing_ids pods"
  shows "\<not> isl (reconcile_revisions E key iu sel pods s)"
proof -
  note sur = surroundingsD [OF assms(1)]
  obtain rl s1 where ls: "on_world (ListControllerRevisions (e_meta E) (e_api E) iu sel) s = (rl, s1)"
    by (metis surj_pair)
  show ?thesis
  proof (cases rl)
    case (Inl e)
    with ls show ?thesis by (simp add: reconcile_revisions_def)
  next
    case (Inr rs)
    note good = listed_good [OF assms(1) ls [unfolded Inr]]
    from getActiveRevisions_returns [OF assms(1) good, of iu "world s1"] obtain active w where
      act: "getActiveRevisions E iu (sort_revisions (e_history E) rs) (world s1) = Inr (active, w)"
      "\<And>cur upd cc. active = Inr (cur, upd, cc) \<Longrightarrow> good (rev_data upd)" by blast
    have "\<not> isl (reconcile_pods E key iu cur upd cc (sort_revisions (e_history E) rs) pods s)"
      if "active = Inr (cur, upd, cc)" for cur upd cc s
      by (rule reconcile_pods_returns [OF sur(6) good act(2) [OF that] assms(3,2,4)])
    with ls Inr act show ?thesis
      by (auto simp: reconcile_revisions_def Let_def split: sum.splits prod.splits)
  qed
qed

lemma Reconcile_total:
  assumes "surroundings E good template_json" and "template_only E req"
    and "\<And>w iu. fst (get_iu (e_api E) (req_namespace req) (req_name req) w) = Inr iu \<Longrightarrow> complete_spec iu"
    and "\<And>w. \<exists>n. draw (random_string (e_api E) LengthOfInstanceID) n w |\<notin>| existing_ids (worked_on E req s)"
  shows "\<not> isl (Reconcile E req s)"
proof -
  obtain r s1 where get: "on_world (get_iu (e_api E) (req_namespace req) (req_name req)) s = (r, s1)"
    by (metis surj_pair)
  have "\<not> isl (reconcile_body E req s)"
  proof (cases r)
    case (Inl e)
    with get show ?thesis by (simp add: reconcile_body_def Let_def)
  next
    case (Inr iu)
    have iu: "fst (get_iu (e_api E) (req_namespace req) (req_name req) (world s)) = Inr iu"
      using on_world_frame(6) [of "get_iu (e_api E) (req_namespace req) (req_name req)" s] get Inr by simp
    note complete = assms(3) [OF iu]
    have applied: "sizes_set iu'" if "ApplyRevision (e_codec E) iu rv = Inr iu'" for rv iu'
      using assms(2) iu that complete unfolding template_only_def complete_spec_def sizes_set_def by metis
    obtain ok d s2 where chk: "check_scale (e_api E) (e_create_first E) (request_key (e_meta E) req) s1 = ((ok, d), s2)"
      by (metis surj_pair)
    obtain ro s3 where own: "getOwnedPods E iu s2 = (ro, s3)" by (metis surj_pair)
    show ?thesis
    proof (cases ro)
      case (Inl e)
      with get \<open>r = Inr iu\<close> chk own show ?thesis by (simp add: reconcile_body_def Let_def split: sum.split)
    next
      case ro: (Inr both)
      obtain owned inactive where both: "both = (owned, inactive)" by fastforce
      obtain rc s4 where cl: "claimPods E iu owned s3 = (rc, s4)" by (metis surj_pair)
      note body = get \<open>r = Inr iu\<close> chk own ro both cl
      show ?thesis
      proof (cases rc)
        case (Inl e)
        with body show ?thesis by (simp add: reconcile_body_def Let_def split: sum.split)
      next
        case (Inr claimed)
        with body have "worked_on E req s = claimed" by (simp add: worked_on_def)
        from reconcile_revisions_returns [OF assms(1) complete applied assms(4) [unfolded this]] body Inr
        show ?thesis by (simp add: reconcile_body_def Let_def split: sum.split)
      qed
    qed
  qed
  then show ?thesis by (auto simp: Reconcile_def isl_bindP)
qed

section \<open>Properties\<close>



end
