(* ===== verification/Convergence.thy ===== *)
theory Convergence
  imports Controller
begin

text \<open>
  Where the loop is going: a resource in its desired state is left alone, and scaling up makes strict
  progress towards it whenever the API server accepts the new pods.
\<close>

section \<open>Scaling up when every creation succeeds\<close>

lemma run_batch_succeeds:
  assumes "\<And>s. fst (fn s) = None"
  shows "run_batch n fn s = ([], ((snd \<circ> fn) ^^ n) s)"
proof (induction n arbitrary: s)
  case (Suc n)
  obtain s' where "fn s = (None, s')" using assms [of s] by (cases "fn s") auto
  with Suc [of s'] show ?case by (simp add: funpow_Suc_right del: funpow.simps)
qed simp

lemma slow_batches_succeed:
  assumes "\<And>s. fst (fn s) = None" and "b \<le> remaining" and "0 < remaining \<Longrightarrow> 0 < b"
  shows "slow_batches fn b remaining k s = ((k + remaining, None), ((snd \<circ> fn) ^^ remaining) s)"
  using assms(2,3)
proof (induction remaining arbitrary: b k s rule: less_induct)
  case (less remaining)
  show ?case
  proof (cases "b = 0")
    case True
    with less.prems have "remaining = 0" by auto
    with True show ?thesis by (simp add: slow_batches.simps [of fn 0])
  next
    case False
    then have smaller: "remaining - b < remaining" using less.prems(1) by simp
    have more: "0 < remaining - b \<Longrightarrow> 0 < min (2 * b) (remaining - b)" using False by simp
    have "((snd \<circ> fn) ^^ (remaining - b)) (((snd \<circ> fn) ^^ b) s) = ((snd \<circ> fn) ^^ remaining) s"
      using less.prems(1) funpow_add [of "remaining - b" b "snd \<circ> fn"] by simp
    with less.IH [OF smaller _ more] False less.prems(1) show ?thesis
      by (simp add: slow_batches.simps [of fn b remaining] run_batch_succeeds [OF assms(1)] Let_def del: comp_apply)
  qed
qed

text \<open>The documented answer of a server that accepts every new pod.\<close>

definition accepts_pods :: "'w api \<Rightarrow> bool" where
  "accepts_pods A \<longleftrightarrow> (\<forall>p w. fst (create_pod A p w) = None)"

lemma createOnePod_accepted:
  assumes "accepts_pods A"
  obtains s' where "createOnePod A iu p s = (None, s')"
    "events s' = events s @ [event_of EventNormal ''SuccessfulCreate'' (pod_name p)]"
proof (cases rule: createOnePod_cases [of A iu p s])
  case (failed e s')
  have "fst (on_world (create_pod A p) s) = None"
    using assms by (simp add: accepts_pods_def on_world_def case_prod_beta)
  with failed(1) show thesis
    by (cases "on_world (create_pod A p) s") (auto simp: createOnePod_def)
next
  case (made s')
  then show thesis using that by blast
qed

lemma create_all:
  assumes "accepts_pods A"
  shows "\<exists>st'. ((snd \<circ> create_next A iu) ^^ length (podsCreationChan st)) st = st' \<and>
    created st' = created st + length (podsCreationChan st) \<and>
    events (creation_sys st') = events (creation_sys st) @
      map (\<lambda>p. event_of EventNormal ''SuccessfulCreate'' (pod_name p)) (podsCreationChan st)"
proof (induction "podsCreationChan st" arbitrary: st)
  case Nil
  then show ?case by (intro exI [of _ st]) (simp flip: Nil)
next
  case (Cons p ps)
  obtain s' where one: "createOnePod A iu p (creation_sys st) = (None, s')"
    "events s' = events (creation_sys st) @ [event_of EventNormal ''SuccessfulCreate'' (pod_name p)]"
    by (rule createOnePod_accepted [OF assms])
  let ?st = "snd (create_next A iu st)"
  have "podsCreationChan ?st = ps" "created ?st = created st + 1" "creation_sys ?st = s'"
    using one(1) by (simp_all add: create_next_def flip: Cons.hyps(2))
  with Cons.hyps(1) [of ?st] one(2) show ?case
    by (simp add: funpow_swap1 flip: Cons.hyps(2))
qed

lemma event_objects_created:
  "event_objects ''SuccessfulCreate'' (map (\<lambda>p. event_of EventNormal ''SuccessfulCreate'' (pod_name p)) ps) = map pod_name ps"
  by (induction ps) simp_all

lemma createPods_accepted:
  assumes "accepts_pods A" and "createPods M A num iu hash ids s = ((m, err), s')"
    and "new = newVersionedPods M iu hash (nat num) ids"
  shows "err = None" and "m \<longleftrightarrow> new \<noteq> []" and "new_objects ''SuccessfulCreate'' s s' = map pod_name new"
proof -
  let ?s0 = "foldl (\<lambda>s p. expect_scale (GetControllerKey M iu) Create (pod_name p) s) s new"
  let ?st0 = "\<lparr>podsCreationChan = new, created = 0, successPodNames = {||}, creation_sys = ?s0\<rparr>"
  have ok: "fst (create_next A iu st) = None" for st
    by (cases "podsCreationChan st"; cases rule: createOnePod_accepted [OF assms(1), of iu "hd (podsCreationChan st)" "creation_sys st"])
      (auto simp: create_next_def)
  obtain st where st: "((snd \<circ> create_next A iu) ^^ length new) ?st0 = st" "created st = length new"
    "events (creation_sys st) = events s @ map (\<lambda>p. event_of EventNormal ''SuccessfulCreate'' (pod_name p)) new"
    using create_all [OF assms(1), where iu = iu and st = ?st0] by (auto simp: sys_frame)
  have "DoItSlowly (length new) initialBatchSize (create_next A iu) ?st0 = ((length new, None), st)"
    unfolding DoItSlowly_def using slow_batches_succeed [of "create_next A iu", OF ok, of _ "length new" 0 ?st0] st(1)
    by (simp add: initialBatchSize_def)
  with assms(2) st(2) have "err = None \<and> (m \<longleftrightarrow> new \<noteq> []) \<and> events s' = events (creation_sys st)"
    by (auto simp: createPods_def NewVersionedPods_def Let_def sys_frame simp flip: assms(3))
  then show "err = None" "m \<longleftrightarrow> new \<noteq> []" "new_objects ''SuccessfulCreate'' s s' = map pod_name new"
    by (simp_all add: new_objects_def st(3) event_objects_created)
qed

lemma gen_ids_some:
  assumes "gen_ids rnd ex n ret w = Some (ids, w')"
  shows "ret |\<subseteq>| ids \<and> (0 < n \<longrightarrow> ids \<noteq> {||})"
  using assms
proof (induction n arbitrary: ret w)
  case (Suc n)
  from Suc.prems obtain iid w1 where "gen_ids rnd ex n (finsert iid ret) w1 = Some (ids, w')"
    by (auto split: option.splits)
  from Suc.IH [OF this] show ?case by auto
qed simp

section \<open>The desired state\<close>

text \<open>As many pods as replicas, all of the update revision and none marked for deletion.\<close>

definition converged :: "inplaceu \<Rightarrow> string \<Rightarrow> pod list \<Rightarrow> bool" where
  "converged iu r pods \<longleftrightarrow>
     (\<exists>rs ru. sp_replicas (iu_spec iu) = Some rs \<and> ds_rolling_update (sp_strategy (iu_spec iu)) = Some ru \<and>
        int (length pods) = sint rs) \<and>
     list_all (\<lambda>p. is_pod_update r p \<and> \<not> IsSpecifiedDelete p) pods"

lemma converged_diffs:
  assumes "converged iu r pods"
  shows "calculateDiffsWithExpectation L iu pods cur r = Inr empty_diffs"
proof -
  obtain rs ru where spec: "sp_replicas (iu_spec iu) = Some rs" "ds_rolling_update (sp_strategy (iu_spec iu)) = Some ru"
    and n: "int (length pods) = sint rs" using assms by (auto simp: converged_def)
  have "to_delete_count pods = 0" "waiting_count r pods = 0"
    using assms by (auto simp: converged_def to_delete_count_def waiting_count_def count_where_zero list_all_iff)
  then show ?thesis
    unfolding calculateDiffs_eq [OF spec] diffs_of_counts_spec Let_def spec_surge_def empty_diffs_def
    by (simp add: n)
qed

lemma converged_scale:
  assumes "converged iu r pods"
  shows "Scale L M A iu0 iu cur r pods s = Inr ((False, None), s)"
proof -
  have "sp_replicas (iu_spec iu) \<noteq> None" and none: "filter IsSpecifiedDelete pods = []"
    using assms by (auto simp: converged_def list_all_iff filter_empty_conv)
  then show ?thesis
    by (simp add: Scale_def converged_diffs [OF assms] getPlannedDeletedPods_def Let_def
        GroupUpdateAndNotUpdatePods_filter scale_in_steps_def empty_diffs_def)
qed

lemma converged_update:
  assumes "converged iu (rev_name up) pods"
  shows "Update L M A P retry iu cur up revs pods s = Inr ((None, pods), s)"
  by (simp add: Update_def converged_diffs [OF assms] empty_diffs_def Let_def)

section \<open>Properties\<close>

text \<open>
  C13: A resource in its desired state stays there: when the pods are as many as the replicas, all of the
  update revision and none marked for deletion, scaling and updating call nothing, record nothing and
  leave the state, the pods and the status as they are, whatever the budgets are.
\<close>

theorem converged_resource_is_left_alone:
  assumes "ApplyRevision (e_codec E) iu cur = Inr currentSet" and "ApplyRevision (e_codec E) iu upd = Inr updateSet"
    and "converged updateSet (rev_name upd) pods"
  shows "syncInplaceu E iu st cur upd revs pods s = Inr ((None, st, pods), s)"
  by (simp add: syncInplaceu_def note_failure_def assms(1,2) converged_scale [OF assms(3)]
      converged_update [OF assms(3)])

theorem converged_resource_is_left_alone_witness:
  "syncInplaceu sample_env (sample_iu (Some 1) (sample_rolling 1 1)) sample_status (sample_revision ''web-r1'' 1 ''d1'')
     (sample_revision ''web-r2'' 2 ''d2'') [] [updated_pod ''a'' PodRunning] sample_sys =
   Inr ((None, sample_status, [updated_pod ''a'' PodRunning]), sample_sys)"
proof (rule converged_resource_is_left_alone)
  show "ApplyRevision (e_codec sample_env) (sample_iu (Some 1) (sample_rolling 1 1)) r =
      Inr (sample_iu (Some 1) (sample_rolling 1 1))" for r
    by (simp add: sample_env_def ApplyRevision_def ApplyRevisionPatch_def sample_codec_def sample_rolling_def)
  then show "ApplyRevision (e_codec sample_env) (sample_iu (Some 1) (sample_rolling 1 1)) r =
      Inr (sample_iu (Some 1) (sample_rolling 1 1))" for r .
  have "is_pod_update (rev_name (sample_revision ''web-r2'' 2 ''d2'')) (updated_pod ''a'' PodRunning) \<and>
      \<not> IsSpecifiedDelete (updated_pod ''a'' PodRunning)" by code_simp
  then show "converged (sample_iu (Some 1) (sample_rolling 1 1)) (rev_name (sample_revision ''web-r2'' 2 ''d2''))
      [updated_pod ''a'' PodRunning]"
    by (simp add: converged_def sample_iu_def sample_rolling_def)
qed



end
