(* ===== verification/Pod_Adapters.thy ===== *)
theory Pod_Adapters
  imports Inplace_Update
begin

text \<open>
  \<open>internal/utils/podadapter/pod_adapter.go\<close> and the constructors of the in-place control: three ways
  to read and write a pod, and what an in-place update through each of them does.
\<close>

section \<open>Adapters\<close>

text \<open>
  What an \<open>Adapter\<close> offers, on the world it acts on.  A pod that comes with an error is not used by
  any caller and is left out.
\<close>

record 'w adapter =
  ad_get_pod :: "string \<Rightarrow> string \<Rightarrow> 'w \<Rightarrow> (go_error + pod) \<times> 'w"
  ad_update_pod :: "pod \<Rightarrow> 'w \<Rightarrow> (go_error + pod) \<times> 'w"
  ad_update_pod_status :: "pod \<Rightarrow> 'w \<Rightarrow> go_error option \<times> 'w"

text \<open>
  The clients behind them: the status writer of the runtime client, the typed client, and the lister
  and the indexer of an informer.  A patch is its type and the bytes it makes for a pod.
\<close>

record pod_patch =
  patch_type :: string
  patch_data :: "pod \<Rightarrow> go_error + string"

record 'w runtime_client =
  rc_update_status :: "pod \<Rightarrow> 'w \<Rightarrow> (go_error + pod) \<times> 'w"
  rc_patch :: "pod \<Rightarrow> pod_patch \<Rightarrow> 'w \<Rightarrow> (go_error + pod) \<times> 'w"

record 'w typed_client =
  tc_get :: "string \<Rightarrow> string \<Rightarrow> 'w \<Rightarrow> (go_error + pod) \<times> 'w"
  tc_update :: "string \<Rightarrow> pod \<Rightarrow> 'w \<Rightarrow> (go_error + pod) \<times> 'w"
  tc_update_status :: "string \<Rightarrow> pod \<Rightarrow> 'w \<Rightarrow> (go_error + pod) \<times> 'w"
  tc_patch :: "string \<Rightarrow> string \<Rightarrow> string \<Rightarrow> string \<Rightarrow> 'w \<Rightarrow> (go_error + pod) \<times> 'w"

record 'w pod_informer =
  lister_get :: "string \<Rightarrow> string \<Rightarrow> 'w \<Rightarrow> (go_error + pod) \<times> 'w"
  indexer_update :: "pod \<Rightarrow> 'w \<Rightarrow> go_error option \<times> 'w"

definition error_of :: "(go_error + 'a) \<times> 'w \<Rightarrow> go_error option \<times> 'w" where
  "error_of r = (case r of (Inl e, w) \<Rightarrow> (Some e, w) | (Inr _, w) \<Rightarrow> (None, w))"

definition AdapterRuntimeClient :: "'w api \<Rightarrow> 'w runtime_client \<Rightarrow> 'w adapter" where
  "AdapterRuntimeClient A C =
     \<lparr>ad_get_pod = Adapter_GetPod A, ad_update_pod = Adapter_UpdatePod A,
      ad_update_pod_status = (\<lambda>p w. error_of (rc_update_status C p w))\<rparr>"

definition RuntimeClient_PatchPod :: "'w runtime_client \<Rightarrow> pod \<Rightarrow> pod_patch \<Rightarrow> 'w \<Rightarrow> (go_error + pod) \<times> 'w" where
  "RuntimeClient_PatchPod C p patch w = rc_patch C p patch w"

definition AdapterTypedClient :: "'w typed_client \<Rightarrow> 'w adapter" where
  "AdapterTypedClient C =
     \<lparr>ad_get_pod = tc_get C, ad_update_pod = (\<lambda>p. tc_update C (pod_namespace p) p),
      ad_update_pod_status = (\<lambda>p w. error_of (tc_update_status C (pod_namespace p) p w))\<rparr>"

definition TypedClient_PatchPod :: "'w typed_client \<Rightarrow> pod \<Rightarrow> pod_patch \<Rightarrow> 'w \<Rightarrow> (go_error + pod) \<times> 'w" where
  "TypedClient_PatchPod C p patch w =
     (case patch_data patch p of
        Inl e \<Rightarrow> (Inl e, w)
      | Inr bytes \<Rightarrow> tc_patch C (pod_namespace p) (pod_name p) (patch_type patch) bytes w)"

definition AdapterInformer :: "'w pod_informer \<Rightarrow> 'w adapter" where
  "AdapterInformer I =
     \<lparr>ad_get_pod = lister_get I,
      ad_update_pod = (\<lambda>p w. case indexer_update I p w of (Some e, w) \<Rightarrow> (Inl e, w) | (None, w) \<Rightarrow> (Inr p, w)),
      ad_update_pod_status = indexer_update I\<rparr>"

text \<open>
  The in-place control reads and writes pods through its adapter only: a control with another adapter
  is the control on calls whose pod accesses are those of the adapter.
\<close>

definition with_adapter :: "'w adapter \<Rightarrow> 'w api \<Rightarrow> 'w api" where
  "with_adapter a A = A\<lparr>get_pod := ad_get_pod a, update_pod := ad_update_pod a\<rparr>"

definition New :: "'w runtime_client \<Rightarrow> 'w api \<Rightarrow> 'w api" where
  "New C A = with_adapter (AdapterRuntimeClient A C) A"

definition NewForTypedClient :: "'w typed_client \<Rightarrow> 'w api \<Rightarrow> 'w api" where
  "NewForTypedClient C A = with_adapter (AdapterTypedClient C) A"

definition NewForInformer :: "'w pod_informer \<Rightarrow> 'w api \<Rightarrow> 'w api" where
  "NewForInformer I A = with_adapter (AdapterInformer I) A"

section \<open>Lemmas\<close>

lemma New_same: "New C A = A"
  by (simp add: New_def with_adapter_def AdapterRuntimeClient_def Adapter_GetPod_def [abs_def] Adapter_UpdatePod_def [abs_def])

lemma informer_calls:
  "get_pod (NewForInformer I A) = lister_get I"
  "update_pod (NewForInformer I A) p w = (case indexer_update I p w of (Some e, w) \<Rightarrow> (Inl e, w) | (None, w) \<Rightarrow> (Inr p, w))"
  by (simp_all add: NewForInformer_def with_adapter_def AdapterInformer_def)

text \<open>
  An update through the informer writes the local cache and reports the resource version of the copy
  it read: no later copy is waited for.
\<close>

lemma informer_update_reports_read_version:
  assumes "retry_contract retry" and "image_spec spec" and "us_metadata_patch spec = None"
    and "updatePodInPlace (NewForInformer I A) P retry p spec w = ((rv, None), w')"
  shows "\<exists>clone w1 w2. lister_get I (pod_namespace p) (pod_name p) w1 = (Inr clone, w2) \<and> rv = pod_rv clone"
proof -
  from updatePodInPlace_writes [OF assms] obtain clone q newPod w1 w2 w3 where
    get: "lister_get I (pod_namespace p) (pod_name p) w1 = (Inr clone, w2)"
    and upd: "update_pod (NewForInformer I A) q w3 = (Inr newPod, w')" "rv = pod_rv newPod"
    and rest: "q\<lparr>pod_labels := None, pod_annotations := None, pod_containers := []\<rparr> =
      clone\<lparr>pod_labels := None, pod_annotations := None, pod_containers := []\<rparr>"
    unfolding informer_calls(1) by blast
  have "newPod = q" using upd(1) by (auto simp: informer_calls split: prod.splits option.splits)
  moreover have "pod_rv q = pod_rv clone"
    using arg_cong [OF rest, of pod_rv] by simp
  ultimately show ?thesis using get upd(2) by blast
qed

end
