(* ===== verification/Json_Utils.thy ===== *)
theory Json_Utils
  imports Prelude
begin

text \<open>
  The JSON helpers of \<open>internal/utils/inplaceu_utils.go\<close>: \<open>DumpJSON\<close> and \<open>IsJSONObjectEqual\<close>.
\<close>

section \<open>Definitions\<close>

text \<open>
  \<open>encoding/json\<close> on values of a type \<open>'v\<close> whose equality is \<open>reflect.DeepEqual\<close>: encoding may fail,
  and decoding into a map does unless the text is an object; the map is then left empty.
\<close>

record ('v, 'm) json_lib =
  json_marshal :: "'v \<Rightarrow> string option"
  json_unmarshal :: "string \<Rightarrow> 'm option"
  json_no_entries :: 'm

definition DumpJSON :: "('v, 'm) json_lib \<Rightarrow> 'v \<Rightarrow> string" where
  "DumpJSON J v = (case json_marshal J v of None \<Rightarrow> [] | Some s \<Rightarrow> s)"

definition IsJSONObjectEqual :: "('v, 'm) json_lib \<Rightarrow> 'v \<Rightarrow> 'v \<Rightarrow> bool" where
  "IsJSONObjectEqual J o1 o2 =
     (if o1 = o2 then True
      else
        let oj1 = DumpJSON J o1;
            oj2 = DumpJSON J o2
        in if oj1 = oj2 then True
           else
             let om1 = (case json_unmarshal J oj1 of None \<Rightarrow> json_no_entries J | Some m \<Rightarrow> m);
                 om2 = (case json_unmarshal J oj2 of None \<Rightarrow> json_no_entries J | Some m \<Rightarrow> m)
             in om1 = om2)"

section \<open>Lemmas\<close>

text \<open>It is an equivalence, because it compares images under one function.\<close>

definition json_view :: "('v, 'm) json_lib \<Rightarrow> 'v \<Rightarrow> 'm" where
  "json_view J v = (case json_unmarshal J (DumpJSON J v) of None \<Rightarrow> json_no_entries J | Some m \<Rightarrow> m)"

lemma IsJSONObjectEqual_view: "IsJSONObjectEqual J v w \<longleftrightarrow> json_view J v = json_view J w"
  by (auto simp: IsJSONObjectEqual_def json_view_def Let_def)

lemma IsJSONObjectEqual_equiv:
  "IsJSONObjectEqual J v v"
  "IsJSONObjectEqual J v w \<Longrightarrow> IsJSONObjectEqual J w v"
  "IsJSONObjectEqual J u v \<Longrightarrow> IsJSONObjectEqual J v w \<Longrightarrow> IsJSONObjectEqual J u w"
  by (simp_all add: IsJSONObjectEqual_view)

text \<open>Two values that are not encoded as objects are equal, whatever they are: two different lists, say.\<close>

lemma IsJSONObjectEqual_non_objects:
  "json_unmarshal J (DumpJSON J v) = None \<Longrightarrow> json_unmarshal J (DumpJSON J w) = None \<Longrightarrow> IsJSONObjectEqual J v w"
  by (simp add: IsJSONObjectEqual_view json_view_def)

end
