(* ===== verification/Process_Entry.thy ===== *)
theory Process_Entry
  imports Manager_Setup
begin

text \<open>
  \<open>cmd/main.go\<close>: the command line, the TLS settings of the two servers, and the start of the manager.
\<close>

section \<open>The command line\<close>

record settings =
  metricsAddr :: string
  probeAddr :: string
  enableLeaderElection :: bool
  secureMetrics :: bool
  webhookCertPath :: string
  webhookCertName :: string
  webhookCertKey :: string
  metricsCertPath :: string
  metricsCertName :: string
  metricsCertKey :: string
  enableHTTP2 :: bool

definition default_settings :: settings where
  "default_settings =
     \<lparr>metricsAddr = ''0'', probeAddr = '':8081'', enableLeaderElection = False, secureMetrics = True,
      webhookCertPath = [], webhookCertName = ''tls.crt'', webhookCertKey = ''tls.key'',
      metricsCertPath = [], metricsCertName = ''tls.crt'', metricsCertKey = ''tls.key'',
      enableHTTP2 = False\<rparr>"

text \<open>\<open>strconv.ParseBool\<close>.\<close>

definition parse_bool :: "string \<Rightarrow> bool option" where
  "parse_bool s =
     (if s \<in> set [''1'', ''t'', ''T'', ''true'', ''TRUE'', ''True''] then Some True
      else if s \<in> set [''0'', ''f'', ''F'', ''false'', ''FALSE'', ''False''] then Some False
      else None)"

text \<open>What \<open>StringVar\<close> and \<open>BoolVar\<close> register: whether the flag needs no value, and how it is set.\<close>

type_synonym setter = "bool \<times> (string \<Rightarrow> settings \<Rightarrow> settings option)"

definition string_var :: "((string \<Rightarrow> string) \<Rightarrow> settings \<Rightarrow> settings) \<Rightarrow> setter" where
  "string_var update = (False, \<lambda>v st. Some (update (\<lambda>_. v) st))"

definition bool_var :: "((bool \<Rightarrow> bool) \<Rightarrow> settings \<Rightarrow> settings) \<Rightarrow> setter" where
  "bool_var update = (True, \<lambda>v st. case parse_bool v of None \<Rightarrow> None | Some b \<Rightarrow> Some (update (\<lambda>_. b) st))"

definition declared_flags :: "(string \<times> setter) list" where
  "declared_flags =
     [(''metrics-bind-address'', string_var metricsAddr_update),
      (''health-probe-bind-address'', string_var probeAddr_update),
      (''leader-elect'', bool_var enableLeaderElection_update),
      (''metrics-secure'', bool_var secureMetrics_update),
      (''webhook-cert-path'', string_var webhookCertPath_update),
      (''webhook-cert-name'', string_var webhookCertName_update),
      (''webhook-cert-key'', string_var webhookCertKey_update),
      (''metrics-cert-path'', string_var metricsCertPath_update),
      (''metrics-cert-name'', string_var metricsCertName_update),
      (''metrics-cert-key'', string_var metricsCertKey_update),
      (''enable-http2'', bool_var enableHTTP2_update)]"

text \<open>
  The flags that zap and the packages of Kubernetes register: whether a name is one of them and needs
  no value, and setting it.
\<close>

record 'w flag_lib =
  other_flag :: "string \<Rightarrow> bool option"
  set_other :: "string \<Rightarrow> string \<Rightarrow> 'w \<Rightarrow> bool \<times> 'w"

definition flag_kind :: "'w flag_lib \<Rightarrow> string \<Rightarrow> bool option" where
  "flag_kind F name = (case map_of declared_flags name of Some (b, assign) \<Rightarrow> Some b | None \<Rightarrow> other_flag F name)"

definition flag_set :: "'w flag_lib \<Rightarrow> string \<Rightarrow> string \<Rightarrow> settings \<times> 'w \<Rightarrow> (settings \<times> 'w) option" where
  "flag_set F name v = (\<lambda>(st, w).
     case map_of declared_flags name of
       Some (b, assign) \<Rightarrow> (case assign v st of None \<Rightarrow> None | Some st \<Rightarrow> Some (st, w))
     | None \<Rightarrow> (case set_other F name v w of (ok, w) \<Rightarrow> if ok then Some (st, w) else None))"

text \<open>
  \<open>flag.Parse\<close> of the standard library: the name of an argument without its dashes, up to the first
  equals sign, and what follows it.  An error ends the process with 2, a request for help with 0.
\<close>

definition flag_name :: "string \<Rightarrow> string" where
  "flag_name s = (if take 2 s = ''--'' then drop 2 s else drop 1 s)"

definition name_and_value :: "string \<Rightarrow> string \<times> string option" where
  "name_and_value s =
     (take 1 s @ takeWhile (\<lambda>c. c \<noteq> CHR ''='') (drop 1 s),
      case dropWhile (\<lambda>c. c \<noteq> CHR ''='') (drop 1 s) of [] \<Rightarrow> None | c # v \<Rightarrow> Some v)"

definition is_flag_argument :: "string \<Rightarrow> bool" where
  "is_flag_argument s = (2 \<le> length s \<and> hd s = CHR ''-'' \<and> s \<noteq> ''--'')"

fun parse_flags :: "'w flag_lib \<Rightarrow> string list \<Rightarrow> settings \<times> 'w \<Rightarrow> nat + settings \<times> 'w" where
  "parse_flags F [] x = Inr x"
| "parse_flags F (s # args) x =
     (if \<not> is_flag_argument s then Inr x
      else if flag_name s = [] \<or> hd (flag_name s) \<in> set ''-='' then Inl 2
      else case name_and_value (flag_name s) of (name, value) \<Rightarrow>
        (case flag_kind F name of
           None \<Rightarrow> Inl (if name = ''help'' \<or> name = ''h'' then 0 else 2)
         | Some True \<Rightarrow>
             (case flag_set F name (case value of None \<Rightarrow> ''true'' | Some v \<Rightarrow> v) x of
                None \<Rightarrow> Inl 2
              | Some x \<Rightarrow> parse_flags F args x)
         | Some False \<Rightarrow>
             (case value of
                Some v \<Rightarrow> (case flag_set F name v x of None \<Rightarrow> Inl 2 | Some x \<Rightarrow> parse_flags F args x)
              | None \<Rightarrow>
                  (case args of
                     [] \<Rightarrow> Inl 2
                   | v # args \<Rightarrow> (case flag_set F name v x of None \<Rightarrow> Inl 2 | Some x \<Rightarrow> parse_flags F args x)))))"

section \<open>File paths\<close>

text \<open>\<open>filepath.Clean\<close> and \<open>filepath.Join\<close> on slash-separated paths.\<close>

definition clean_step :: "bool \<Rightarrow> string list \<Rightarrow> string \<Rightarrow> string list" where
  "clean_step rooted out e =
     (if e = [] \<or> e = ''.'' then out
      else if e = ''..'' then
        (if out \<noteq> [] \<and> last out \<noteq> ''..'' then butlast out
         else if rooted then out else out @ [e])
      else out @ [e])"

fun join_with :: "char \<Rightarrow> string list \<Rightarrow> string" where
  "join_with c [] = []"
| "join_with c [e] = e"
| "join_with c (e # es) = e @ c # join_with c es"

definition path_clean :: "string \<Rightarrow> string" where
  "path_clean path =
     (if path = [] then ''.''
      else let rooted = (hd path = CHR ''/'');
               out = foldl (clean_step rooted) [] (split_on (CHR ''/'') path);
               s = (if rooted then ''/'' else []) @ join_with (CHR ''/'') out
           in if s = [] then ''.'' else s)"

definition path_join :: "string \<Rightarrow> string \<Rightarrow> string" where
  "path_join dir name =
     (if dir \<noteq> [] then path_clean (dir @ CHR ''/'' # name)
      else if name \<noteq> [] then path_clean name else [])"

section \<open>TLS options\<close>

text \<open>
  A certificate watcher is an opaque handle.  The two closures of \<open>main\<close> are the options; the watcher
  that the second one captures is not assigned again.
\<close>

type_synonym watcher = nat

record tls_config =
  NextProtos :: "string list"
  GetCertificate :: "watcher option"

datatype tls_option = disableHTTP2 | certificateFrom watcher

fun apply_option :: "tls_config \<Rightarrow> tls_option \<Rightarrow> tls_config" where
  "apply_option c disableHTTP2 = c\<lparr>NextProtos := [''http/1.1'']\<rparr>"
| "apply_option c (certificateFrom cw) = c\<lparr>GetCertificate := Some cw\<rparr>"

text \<open>
  Slices of options share arrays: a slice is an array, a length and a capacity, and \<open>append\<close> writes
  into the array when the capacity allows it.  The capacity of a new array is the choice of the
  runtime (\<open>grow\<close>, given the length that is needed).
\<close>

record go_slice =
  sl_array :: nat
  sl_len :: nat
  sl_cap :: nat

type_synonym arrays = "tls_option option list list"

definition nil_slice :: go_slice where
  "nil_slice = \<lparr>sl_array = 0, sl_len = 0, sl_cap = 0\<rparr>"

definition slice_elements :: "go_slice \<Rightarrow> arrays \<Rightarrow> tls_option option list" where
  "slice_elements s mem = (if sl_len s = 0 then [] else take (sl_len s) (mem ! sl_array s))"

definition slice_options :: "go_slice \<Rightarrow> arrays \<Rightarrow> tls_option list" where
  "slice_options s mem = List.map_filter id (slice_elements s mem)"

definition go_append :: "(nat \<Rightarrow> nat) \<Rightarrow> go_slice \<Rightarrow> tls_option \<Rightarrow> arrays \<Rightarrow> go_slice \<times> arrays" where
  "go_append grow s x mem =
     (if sl_len s < sl_cap s
      then (s\<lparr>sl_len := sl_len s + 1\<rparr>, mem[sl_array s := (mem ! sl_array s)[sl_len s := Some x]])
      else let needed = sl_len s + 1; capacity = max needed (grow needed)
           in (\<lparr>sl_array = length mem, sl_len = needed, sl_cap = capacity\<rparr>,
               mem @ [slice_elements s mem @ Some x # replicate (capacity - needed) None]))"

section \<open>Starting\<close>

record manager_options =
  mo_metrics_address :: string
  mo_metrics_secure :: bool
  mo_metrics_tls :: "tls_option list"
  mo_metrics_filter :: bool
  mo_webhook_tls :: "tls_option list"
  mo_probe_address :: string
  mo_leader_election :: bool
  mo_leader_election_id :: string

text \<open>
  The calls into other packages: registering the types of Kubernetes and those of a scheme builder
  under a group and version, \<open>certwatcher.New\<close>,
  \<open>GetConfigOrDie\<close> (\<open>False\<close> when it ends the process), \<open>NewManager\<close>, and the methods of the manager,
  which is part of the world.
\<close>

record 'w process_lib =
  pl_flags :: "'w flag_lib"
  pl_manager :: "'w manager_lib"
  add_client_scheme :: "'w \<Rightarrow> go_error option \<times> 'w"
  builder_add :: "string \<times> string \<Rightarrow> string list \<Rightarrow> 'w \<Rightarrow> go_error option \<times> 'w"
  new_watcher :: "string \<Rightarrow> string \<Rightarrow> 'w \<Rightarrow> (go_error + watcher) \<times> 'w"
  get_config :: "'w \<Rightarrow> bool \<times> 'w"
  new_manager :: "manager_options \<Rightarrow> 'w \<Rightarrow> go_error option \<times> 'w"
  add_watcher :: "watcher \<Rightarrow> 'w \<Rightarrow> go_error option \<times> 'w"
  add_healthz :: "string \<Rightarrow> 'w \<Rightarrow> go_error option \<times> 'w"
  add_readyz :: "string \<Rightarrow> 'w \<Rightarrow> go_error option \<times> 'w"
  start_manager :: "'w \<Rightarrow> go_error option \<times> 'w"

datatype outcome = Exited nat | Panicked | Returned

text \<open>\<open>if len(path) > 0\<close>: a watcher for the two files, and the option appended; \<open>Inl\<close> is the exit.\<close>

definition watch_certificate ::
  "'w process_lib \<Rightarrow> (nat \<Rightarrow> nat) \<Rightarrow> string \<Rightarrow> string \<Rightarrow> string \<Rightarrow> go_slice \<times> arrays \<Rightarrow> 'w \<Rightarrow>
     (nat + watcher option \<times> go_slice \<times> arrays) \<times> 'w" where
  "watch_certificate L grow path name key = (\<lambda>(opts, mem) w.
     if path = [] then (Inr (None, opts, mem), w)
     else case new_watcher L (path_join path name) (path_join path key) w of
            (Inl e, w) \<Rightarrow> (Inl 1, w)
          | (Inr cw, w) \<Rightarrow> (Inr (Some cw, go_append grow opts (certificateFrom cw) mem), w))"

text \<open>From the flags to the options of the manager and the two watchers.\<close>

definition configure ::
  "'w process_lib \<Rightarrow> (nat \<Rightarrow> nat) \<Rightarrow> settings \<Rightarrow> 'w \<Rightarrow>
     (nat + manager_options \<times> watcher option \<times> watcher option) \<times> 'w" where
  "configure L grow st w =
     (let (tlsOpts, mem) = (if \<not> enableHTTP2 st then go_append grow nil_slice disableHTTP2 [] else (nil_slice, []))
      in case watch_certificate L grow (webhookCertPath st) (webhookCertName st) (webhookCertKey st) (tlsOpts, mem) w of
           (Inl code, w) \<Rightarrow> (Inl code, w)
         | (Inr (webhookCertWatcher, webhookTLSOpts, mem), w) \<Rightarrow>
             (case watch_certificate L grow (metricsCertPath st) (metricsCertName st) (metricsCertKey st) (tlsOpts, mem) w of
                (Inl code, w) \<Rightarrow> (Inl code, w)
              | (Inr (metricsCertWatcher, metricsTLSOpts, mem), w) \<Rightarrow>
                  (Inr (\<lparr>mo_metrics_address = metricsAddr st, mo_metrics_secure = secureMetrics st,
                         mo_metrics_tls = slice_options metricsTLSOpts mem,
                         mo_metrics_filter = secureMetrics st,
                         mo_webhook_tls = slice_options webhookTLSOpts mem,
                         mo_probe_address = probeAddr st, mo_leader_election = enableLeaderElection st,
                         mo_leader_election_id = ''892700a1.inplace.kubebuilder.io''\<rparr>,
                        metricsCertWatcher, webhookCertWatcher), w)))"

text \<open>One call after the other, each followed by \<open>os.Exit(1)\<close> when it fails.\<close>

fun run_steps :: "('w \<Rightarrow> go_error option \<times> 'w) list \<Rightarrow> 'w \<Rightarrow> outcome \<times> 'w" where
  "run_steps [] w = (Returned, w)"
| "run_steps (call # calls) w =
     (case call w of
        (Some e, w) \<Rightarrow> (Exited 1, w)
      | (None, w) \<Rightarrow> run_steps calls w)"

definition start_steps ::
  "'w process_lib \<Rightarrow> manager_options \<Rightarrow> watcher option \<Rightarrow> watcher option \<Rightarrow> ('w \<Rightarrow> go_error option \<times> 'w) list" where
  "start_steps L opts metricsCertWatcher webhookCertWatcher =
     [new_manager L opts, SetupWithManager (pl_manager L)] @
     (case metricsCertWatcher of None \<Rightarrow> [] | Some cw \<Rightarrow> [add_watcher L cw]) @
     (case webhookCertWatcher of None \<Rightarrow> [] | Some cw \<Rightarrow> [add_watcher L cw]) @
     [add_healthz L ''healthz'', add_readyz L ''readyz'', start_manager L]"

text \<open>The types of \<open>api/v1\<close> and their group and version.\<close>

definition GroupVersion :: "string \<times> string" where
  "GroupVersion = (''batch.inplace.kubebuilder.io'', ''v1'')"

definition registered_types :: "string list" where
  "registered_types = [''Inplaceu'', ''InplaceuList'']"

definition batch_AddToScheme :: "'w process_lib \<Rightarrow> 'w \<Rightarrow> go_error option \<times> 'w" where
  "batch_AddToScheme L = builder_add L GroupVersion registered_types"

text \<open>\<open>utilruntime.Must\<close> panics on an error.\<close>

definition process_init :: "'w process_lib \<Rightarrow> 'w \<Rightarrow> bool \<times> 'w" where
  "process_init L w =
     (case add_client_scheme L w of
        (Some e, w) \<Rightarrow> (False, w)
      | (None, w) \<Rightarrow> (case batch_AddToScheme L w of (Some e, w) \<Rightarrow> (False, w) | (None, w) \<Rightarrow> (True, w)))"

definition process_main :: "'w process_lib \<Rightarrow> (nat \<Rightarrow> nat) \<Rightarrow> string list \<Rightarrow> 'w \<Rightarrow> outcome \<times> 'w" where
  "process_main L grow args w =
     (case parse_flags (pl_flags L) args (default_settings, w) of
        Inl code \<Rightarrow> (Exited code, w)
      | Inr (st, w) \<Rightarrow>
          (case configure L grow st w of
             (Inl code, w) \<Rightarrow> (Exited code, w)
           | (Inr (opts, metricsCertWatcher, webhookCertWatcher), w) \<Rightarrow>
               (case get_config L w of
                  (False, w) \<Rightarrow> (Exited 1, w)
                | (True, w) \<Rightarrow> run_steps (start_steps L opts metricsCertWatcher webhookCertWatcher) w)))"

definition run_process :: "'w process_lib \<Rightarrow> (nat \<Rightarrow> nat) \<Rightarrow> string list \<Rightarrow> 'w \<Rightarrow> outcome \<times> 'w" where
  "run_process L grow args w =
     (case process_init L w of
        (False, w) \<Rightarrow> (Panicked, w)
      | (True, w) \<Rightarrow> process_main L grow args w)"


section \<open>Lemmas\<close>

subsection \<open>The command line\<close>

text \<open>Settings written as a command line.\<close>

definition render_bool :: "bool \<Rightarrow> string" where
  "render_bool b = (if b then ''true'' else ''false'')"

definition render_flag :: "string \<Rightarrow> string \<Rightarrow> string" where
  "render_flag name v = ''--'' @ name @ CHR ''='' # v"

definition render_settings :: "settings \<Rightarrow> string list" where
  "render_settings st =
     [render_flag ''metrics-bind-address'' (metricsAddr st),
      render_flag ''health-probe-bind-address'' (probeAddr st),
      render_flag ''leader-elect'' (render_bool (enableLeaderElection st)),
      render_flag ''metrics-secure'' (render_bool (secureMetrics st)),
      render_flag ''webhook-cert-path'' (webhookCertPath st),
      render_flag ''webhook-cert-name'' (webhookCertName st),
      render_flag ''webhook-cert-key'' (webhookCertKey st),
      render_flag ''metrics-cert-path'' (metricsCertPath st),
      render_flag ''metrics-cert-name'' (metricsCertName st),
      render_flag ''metrics-cert-key'' (metricsCertKey st),
      render_flag ''enable-http2'' (render_bool (enableHTTP2 st))]"

lemma parse_render_bool [simp]: "parse_bool (render_bool b) = Some b"
  by (cases b) (simp_all add: parse_bool_def render_bool_def)

text \<open>An argument with a value sets the flag of its name, whatever the value looks like.\<close>

definition plain_name :: "string \<Rightarrow> bool" where
  "plain_name s = (s \<noteq> [] \<and> hd s \<noteq> CHR ''-'' \<and> list_all (\<lambda>c. c \<noteq> CHR ''='') s)"

lemma name_and_value_render:
  assumes "plain_name name"
  shows "name_and_value (name @ CHR ''='' # v) = (name, Some v)"
proof -
  obtain c cs where name: "name = c # cs" using assms by (cases name) (simp_all add: plain_name_def)
  have "\<forall>x\<in>set cs. x \<noteq> CHR ''=''" using assms by (simp add: plain_name_def name list_all_iff)
  then show ?thesis by (simp add: name name_and_value_def takeWhile_append2 dropWhile_append2)
qed

lemma parse_rendered:
  assumes "plain_name name" and "map_of declared_flags name = Some (b, assign)" and "assign v st = Some st2"
  shows "parse_flags F (render_flag name v # args) (st, w) = parse_flags F args (st2, w)"
proof -
  have arg: "is_flag_argument (render_flag name v)" "flag_name (render_flag name v) = name @ CHR ''='' # v"
    using assms(1) by (auto simp: is_flag_argument_def flag_name_def render_flag_def plain_name_def)
  have "hd (name @ CHR ''='' # v) \<notin> set ''-=''" "name @ CHR ''='' # v \<noteq> []"
    using assms(1) by (cases name; simp add: plain_name_def)+
  with arg assms(2,3) show ?thesis
    by (simp add: name_and_value_render [OF assms(1)] flag_kind_def flag_set_def split: bool.split)
qed

lemma flags_distinct: "distinct (map fst declared_flags)"
  by code_simp

lemma declared_plain: "list_all (\<lambda>f. plain_name (fst f)) declared_flags"
  by code_simp

lemma parse_declared:
  assumes "(name, b, assign) \<in> set declared_flags" and "assign v st = Some st2"
  shows "parse_flags F (render_flag name v # args) (st, w) = parse_flags F args (st2, w)"
proof (rule parse_rendered [where assign = assign])
  show "plain_name name" using declared_plain assms(1) by (fastforce simp: list_all_iff)
  show "map_of declared_flags name = Some (b, assign)" using flags_distinct assms(1) by (rule map_of_is_SomeI)
qed (rule assms(2))

lemma parse_string_var:
  "(name, string_var update) \<in> set declared_flags \<Longrightarrow>
     parse_flags F (render_flag name v # args) (st, w) = parse_flags F args (update (\<lambda>_. v) st, w)"
  by (rule parse_declared [of _ False "snd (string_var update)"]) (simp_all add: string_var_def)

lemma parse_bool_var:
  "(name, bool_var update) \<in> set declared_flags \<Longrightarrow>
     parse_flags F (render_flag name (render_bool b) # args) (st, w) = parse_flags F args (update (\<lambda>_. b) st, w)"
  by (rule parse_declared [of _ True "snd (bool_var update)"]) (simp_all add: bool_var_def)

lemma declared_members:
  "(''metrics-bind-address'', string_var metricsAddr_update) \<in> set declared_flags"
  "(''health-probe-bind-address'', string_var probeAddr_update) \<in> set declared_flags"
  "(''leader-elect'', bool_var enableLeaderElection_update) \<in> set declared_flags"
  "(''metrics-secure'', bool_var secureMetrics_update) \<in> set declared_flags"
  "(''webhook-cert-path'', string_var webhookCertPath_update) \<in> set declared_flags"
  "(''webhook-cert-name'', string_var webhookCertName_update) \<in> set declared_flags"
  "(''webhook-cert-key'', string_var webhookCertKey_update) \<in> set declared_flags"
  "(''metrics-cert-path'', string_var metricsCertPath_update) \<in> set declared_flags"
  "(''metrics-cert-name'', string_var metricsCertName_update) \<in> set declared_flags"
  "(''metrics-cert-key'', string_var metricsCertKey_update) \<in> set declared_flags"
  "(''enable-http2'', bool_var enableHTTP2_update) \<in> set declared_flags"
  unfolding declared_flags_def by (simp_all only: list.set insert_iff simp_thms)

lemmas parse_string_flags = declared_members(1,2,5-10) [THEN parse_string_var]
lemmas parse_bool_flags = declared_members(3,4,11) [THEN parse_bool_var]

subsection \<open>The TLS options\<close>

lemma slice_options_nil [simp]: "slice_options nil_slice mem = []"
  by (simp add: slice_options_def slice_elements_def nil_slice_def map_filter_def)

lemma map_filter_id_append [simp]: "List.map_filter id (xs @ ys) = List.map_filter id xs @ List.map_filter id ys"
  by (simp add: map_filter_def)

lemma map_filter_id_Cons [simp]: "List.map_filter id (Some x # ys) = x # List.map_filter id ys"
  by (simp add: map_filter_def)

text \<open>
  Appending to a slice that has no spare capacity leaves every other slice of the arrays there are
  as it was.
\<close>

definition valid_slice :: "go_slice \<Rightarrow> arrays \<Rightarrow> bool" where
  "valid_slice s mem = (sl_len s = 0 \<or> sl_array s < length mem \<and> sl_len s \<le> length (mem ! sl_array s))"

lemma append_full:
  assumes "go_append grow s x mem = (s2, mem2)" and "sl_cap s \<le> sl_len s" and "valid_slice s mem"
  shows "slice_options s2 mem2 = slice_options s mem @ [x] \<and> valid_slice s2 mem2 \<and>
    (\<forall>s'. valid_slice s' mem \<longrightarrow> valid_slice s' mem2 \<and> slice_options s' mem2 = slice_options s' mem)"
  using assms
  by (auto simp: go_append_def Let_def slice_options_def slice_elements_def valid_slice_def nth_append)


lemma watch_certificate_Inr:
  assumes "watch_certificate L grow path name key (s, mem) w = (Inr (cw, s2, mem2), w')"
    and "sl_cap s \<le> sl_len s" and "valid_slice s mem"
  shows "slice_options s2 mem2 = slice_options s mem @ (case cw of None \<Rightarrow> [] | Some c \<Rightarrow> [certificateFrom c]) \<and>
    valid_slice s2 mem2 \<and>
    (\<forall>s'. valid_slice s' mem \<longrightarrow> valid_slice s' mem2 \<and> slice_options s' mem2 = slice_options s' mem) \<and>
    (cw = None \<longleftrightarrow> path = []) \<and>
    (\<forall>c. cw = Some c \<longrightarrow> (\<exists>w0. new_watcher L (path_join path name) (path_join path key) w0 = (Inr c, w')))"
  using assms(1,3)
  by (auto simp: watch_certificate_def split: if_splits prod.splits sum.splits
      dest: append_full [OF _ assms(2,3)])

text \<open>The options of both servers, from one slice without spare capacity.\<close>

definition first_options :: "(nat \<Rightarrow> nat) \<Rightarrow> settings \<Rightarrow> go_slice \<times> arrays" where
  "first_options grow st =
     (if \<not> enableHTTP2 st then go_append grow nil_slice disableHTTP2 [] else (nil_slice, []))"

lemma first_options_full:
  assumes "enableHTTP2 st \<or> grow 1 \<le> 1" and "first_options grow st = (s, mem)"
  shows "sl_cap s \<le> sl_len s \<and> valid_slice s mem \<and>
    slice_options s mem = (if enableHTTP2 st then [] else [disableHTTP2])"
  using assms
  by (auto simp: first_options_def go_append_def Let_def nil_slice_def valid_slice_def slice_elements_def
      slice_options_def map_filter_def split: if_splits)

lemma configure_cases:
  assumes "configure L grow st w = (Inr (opts, mw, ww), w')"
  obtains s mem s1 mem1 w1 s2 mem2 where "first_options grow st = (s, mem)"
    "watch_certificate L grow (webhookCertPath st) (webhookCertName st) (webhookCertKey st) (s, mem) w = (Inr (ww, s1, mem1), w1)"
    "watch_certificate L grow (metricsCertPath st) (metricsCertName st) (metricsCertKey st) (s, mem1) w1 = (Inr (mw, s2, mem2), w')"
    "mo_webhook_tls opts = slice_options s1 mem2" "mo_metrics_tls opts = slice_options s2 mem2"
    "mo_metrics_address opts = metricsAddr st" "mo_metrics_secure opts = secureMetrics st"
    "mo_metrics_filter opts = secureMetrics st" "mo_probe_address opts = probeAddr st"
    "mo_leader_election opts = enableLeaderElection st"
proof -
  obtain s mem where first: "first_options grow st = (s, mem)" by fastforce
  show thesis
    using assms
    by (auto simp: configure_def first [unfolded first_options_def] split: prod.splits sum.splits intro!: that [OF first])
qed

text \<open>What a list of options makes of the configuration of a server.\<close>

definition served :: "tls_option list \<Rightarrow> tls_config \<Rightarrow> tls_config" where
  "served opts base = foldl apply_option base opts"

lemma served_options:
  "served ((if h then [] else [disableHTTP2]) @ (case cw of None \<Rightarrow> [] | Some c \<Rightarrow> [certificateFrom c])) base =
     \<lparr>NextProtos = (if h then NextProtos base else [''http/1.1'']),
      GetCertificate = (case cw of None \<Rightarrow> GetCertificate base | Some c \<Rightarrow> Some c)\<rparr>"
  by (auto simp: served_def split: option.split)

lemma NextProtos_served:
  "disableHTTP2 \<in> set opts \<Longrightarrow> NextProtos (served opts base) = [''http/1.1'']"
proof (induction opts rule: rev_induct)
  case (snoc x xs)
  then show ?case by (cases x) (auto simp: served_def)
qed simp

text \<open>With spare capacity or without, the first option of a slice stays what it is.\<close>

definition starts :: "tls_option \<Rightarrow> go_slice \<Rightarrow> arrays \<Rightarrow> bool" where
  "starts x s mem \<longleftrightarrow> 0 < sl_len s \<and> sl_array s < length mem \<and> (\<exists>rest. mem ! sl_array s = Some x # rest)"

lemma starts_options: "starts x s mem \<Longrightarrow> x \<in> set (slice_options s mem)"
  by (cases "sl_len s") (auto simp: starts_def slice_options_def slice_elements_def)

lemma append_starts:
  assumes "go_append grow s y mem = (s2, mem2)" and "starts x s mem"
  shows "starts x s2 mem2" and "starts x t mem \<Longrightarrow> starts x t mem2"
proof -
  obtain n rest where s: "sl_len s = Suc n" "mem ! sl_array s = Some x # rest" "sl_array s < length mem"
    using assms(2) by (cases "sl_len s") (auto simp: starts_def)
  show "starts x s2 mem2"
    using assms(1) s by (auto simp: starts_def go_append_def Let_def slice_elements_def split: if_splits)
  show "starts x t mem2" if "starts x t mem"
    using assms(1) s that by (auto simp: starts_def go_append_def Let_def nth_append nth_list_update split: if_splits)
qed

lemma watch_certificate_starts:
  assumes "watch_certificate L grow path name key (s, mem) w = (Inr (cw, s2, mem2), w')" and "starts x s mem"
  shows "starts x s2 mem2" and "starts x t mem \<Longrightarrow> starts x t mem2"
  using assms by (auto simp: watch_certificate_def split: if_splits prod.splits sum.splits dest: append_starts)

lemma http2_option_stays:
  assumes "configure L grow st w = (Inr (opts, mw, ww), w')" and "\<not> enableHTTP2 st"
  shows "disableHTTP2 \<in> set (mo_webhook_tls opts) \<and> disableHTTP2 \<in> set (mo_metrics_tls opts)"
  using assms(1)
proof (cases rule: configure_cases)
  case (1 s mem s1 mem1 w1 s2 mem2)
  have "starts disableHTTP2 s mem"
    using 1(1) assms(2) by (auto simp: first_options_def go_append_def nil_slice_def slice_elements_def starts_def Let_def)
  note webhook = watch_certificate_starts [OF 1(2) this]
  note metrics = watch_certificate_starts [OF 1(3) webhook(2) [OF \<open>starts disableHTTP2 s mem\<close>]]
  from metrics(2) [OF webhook(1)] metrics(1) show ?thesis
    unfolding 1(4,5) by (auto intro: starts_options)
qed

lemma configure_options:
  assumes "configure L grow st w = (Inr (opts, mw, ww), w')" and "enableHTTP2 st \<or> grow 1 \<le> 1"
  shows "mo_webhook_tls opts = (if enableHTTP2 st then [] else [disableHTTP2]) @
      (case ww of None \<Rightarrow> [] | Some c \<Rightarrow> [certificateFrom c]) \<and>
    mo_metrics_tls opts = (if enableHTTP2 st then [] else [disableHTTP2]) @
      (case mw of None \<Rightarrow> [] | Some c \<Rightarrow> [certificateFrom c])"
  using assms(1)
proof (cases rule: configure_cases)
  case (1 s mem s1 mem1 w1 s2 mem2)
  from first_options_full [OF assms(2) 1(1)] have first: "sl_cap s \<le> sl_len s" "valid_slice s mem"
    "slice_options s mem = (if enableHTTP2 st then [] else [disableHTTP2])" by simp_all
  note webhook = watch_certificate_Inr [OF 1(2) first(1,2)]
  then have later: "valid_slice s mem1" "slice_options s mem1 = slice_options s mem" using first(2) by blast+
  note metrics = watch_certificate_Inr [OF 1(3) first(1) later(1)]
  have "slice_options s1 mem2 = slice_options s1 mem1" using webhook metrics by blast
  with webhook metrics later(2) first(3) show ?thesis unfolding 1(4,5) by simp
qed

lemma configure_watchers:
  assumes "configure L grow st w = (Inr (opts, mw, ww), w')"
  shows "(ww = None \<longleftrightarrow> webhookCertPath st = []) \<and> (mw = None \<longleftrightarrow> metricsCertPath st = []) \<and>
    (\<forall>c. ww = Some c \<longrightarrow> (\<exists>w0 w1. new_watcher L (path_join (webhookCertPath st) (webhookCertName st))
       (path_join (webhookCertPath st) (webhookCertKey st)) w0 = (Inr c, w1))) \<and>
    (\<forall>c. mw = Some c \<longrightarrow> (\<exists>w0 w1. new_watcher L (path_join (metricsCertPath st) (metricsCertName st))
       (path_join (metricsCertPath st) (metricsCertKey st)) w0 = (Inr c, w1)))"
  using assms
proof (cases rule: configure_cases)
  case (1 s mem s1 mem1 w1 s2 mem2)
  from 1(2,3) show ?thesis
    by (auto simp: watch_certificate_def split: if_splits prod.splits sum.splits)
qed


subsection \<open>The start of the manager\<close>

lemma run_steps_append:
  "run_steps (calls @ calls') w =
     (case run_steps calls w of (Returned, w) \<Rightarrow> run_steps calls' w | r \<Rightarrow> r)"
  by (induction calls arbitrary: w) (auto split: prod.splits option.splits outcome.splits)

lemma run_steps_Returned:
  "run_steps (call # calls) w = (Returned, w') \<Longrightarrow> \<exists>w1. call w = (None, w1) \<and> run_steps calls w1 = (Returned, w')"
  by (auto split: prod.splits option.splits)

text \<open>What the calls achieve: each its own stage, and a stage that is reached stays.\<close>

datatype stage = ManagerMade | PodIndex | ControllerBuilt | Watching watcher | HealthCheck | ReadyCheck

definition manager_calls :: "'w process_lib \<Rightarrow> (stage \<times> ('w \<Rightarrow> go_error option \<times> 'w)) set" where
  "manager_calls L =
     {(ManagerMade, new_manager L opts) | opts. True} \<union> {(Watching c, add_watcher L c) | c. True} \<union>
     {(PodIndex, index_field (pl_manager L) ''ownerRefUID'' owner_uid_index),
      (ControllerBuilt, build_controller (pl_manager L) inplaceu_update_passes),
      (HealthCheck, add_healthz L ''healthz''), (ReadyCheck, add_readyz L ''readyz'')}"

definition stages_contract :: "'w process_lib \<Rightarrow> (stage \<Rightarrow> 'w \<Rightarrow> bool) \<Rightarrow> bool" where
  "stages_contract L reached \<longleftrightarrow>
     (\<forall>(own, call)\<in>manager_calls L. \<forall>w w'. call w = (None, w') \<longrightarrow>
        reached own w' \<and> (\<forall>g. reached g w \<longrightarrow> reached g w'))"

lemma run_stages:
  assumes "stages_contract L reached" and "set cs \<subseteq> manager_calls L"
    and "run_steps (map snd cs @ calls) w = (Returned, w')"
  shows "\<exists>w1. run_steps calls w1 = (Returned, w') \<and> (\<forall>g\<in>fst ` set cs. reached g w1) \<and>
    (\<forall>g. reached g w \<longrightarrow> reached g w1)"
  using assms(2,3)
proof (induction cs arbitrary: w)
  case Nil
  then show ?case by auto
next
  case (Cons c cs)
  from run_steps_Returned [of "snd c" "map snd cs @ calls" w w'] Cons.prems(2) obtain w1 where
    w1: "snd c w = (None, w1)" "run_steps (map snd cs @ calls) w1 = (Returned, w')" by auto
  have "reached (fst c) w1 \<and> (\<forall>g. reached g w \<longrightarrow> reached g w1)"
    using assms(1) Cons.prems(1) w1(1) unfolding stages_contract_def by (cases c) auto
  moreover from Cons.IH [OF _ w1(2)] Cons.prems(1) obtain w2 where
    "run_steps calls w2 = (Returned, w')" "\<forall>g\<in>fst ` set cs. reached g w2" "\<forall>g. reached g w1 \<longrightarrow> reached g w2" by auto
  ultimately show ?case by (intro exI [of _ w2]) auto
qed

lemma run_setup:
  "run_steps (SetupWithManager G # calls) w =
     run_steps (index_field G ''ownerRefUID'' owner_uid_index # build_controller G inplaceu_update_passes # calls) w"
  by (simp add: SetupWithManager_def split: prod.split option.split)

definition start_stages ::
  "'w process_lib \<Rightarrow> manager_options \<Rightarrow> watcher option \<Rightarrow> watcher option \<Rightarrow>
     (stage \<times> ('w \<Rightarrow> go_error option \<times> 'w)) list" where
  "start_stages L opts mw ww =
     [(ManagerMade, new_manager L opts), (PodIndex, index_field (pl_manager L) ''ownerRefUID'' owner_uid_index),
      (ControllerBuilt, build_controller (pl_manager L) inplaceu_update_passes)] @
     map (\<lambda>c. (Watching c, add_watcher L c)) (List.map_filter id [mw, ww]) @
     [(HealthCheck, add_healthz L ''healthz''), (ReadyCheck, add_readyz L ''readyz'')]"

lemma run_start_steps:
  "run_steps (start_steps L opts mw ww) w = run_steps (map snd (start_stages L opts mw ww) @ [start_manager L]) w"
proof -
  have "run_steps (new_manager L opts # SetupWithManager (pl_manager L) # calls) w =
      run_steps (new_manager L opts # index_field (pl_manager L) ''ownerRefUID'' owner_uid_index #
        build_controller (pl_manager L) inplaceu_update_passes # calls) w" for calls w
    by (simp only: run_steps.simps(2) [of "new_manager L opts"] run_setup)
  then show ?thesis
    by (auto simp: start_steps_def start_stages_def map_filter_def simp del: run_steps.simps split: option.split)
qed

section \<open>A concrete process\<close>

text \<open>The world lists the calls that were made; a watcher can be made for every directory but \<open>/bad\<close>.\<close>

definition logged :: "string \<Rightarrow> string list \<Rightarrow> go_error option \<times> string list" where
  "logged call w = (None, w @ [call])"

definition sample_process :: "string list process_lib" where
  "sample_process =
     \<lparr>pl_flags = \<lparr>other_flag = (\<lambda>n. if n = ''kubeconfig'' then Some False else None), set_other = (\<lambda>n v w. (True, w))\<rparr>,
      pl_manager = \<lparr>index_field = (\<lambda>n f. logged ''index''), build_controller = (\<lambda>p. logged ''controller'')\<rparr>,
      add_client_scheme = logged ''client scheme'', builder_add = (\<lambda>gv kinds. logged (fst gv)),
      new_watcher = (\<lambda>cert key w. if has_prefix cert ''/bad'' then (Inl (Errorf ''no certificate''), w)
        else (Inr (length w), w @ [cert])),
      get_config = (\<lambda>w. (True, w)), new_manager = (\<lambda>opts. logged ''manager''),
      add_watcher = (\<lambda>c. logged (if c = 2 then ''watch 2'' else ''watch'')),
      add_healthz = logged, add_readyz = logged, start_manager = logged ''start''\<rparr>"

definition sample_grow :: "nat \<Rightarrow> nat" where
  "sample_grow n = n"

lemma sample_run:
  "run_process sample_process sample_grow [''--webhook-cert-path=/certs/'', ''--leader-elect''] [] =
     (Returned, [''client scheme'', ''batch.inplace.kubebuilder.io'', ''/certs/tls.crt'', ''manager'', ''index'', ''controller'',
        ''watch 2'', ''healthz'', ''readyz'', ''start''])"
  by code_simp

lemma sample_failures:
  "fst (run_process sample_process sample_grow [''--metrics-cert-path'', ''/bad''] []) = Exited 1"
  "fst (run_process sample_process sample_grow [''--leader-elect=maybe''] []) = Exited 2"
  "fst (run_process sample_process sample_grow [''-h''] []) = Exited 0"
  "fst (run_process sample_process sample_grow [''--metrics-cert-path''] []) = Exited 2"
  by code_simp+

text \<open>
  The webhook server keeps its certificate because the first append leaves no spare capacity: with
  room for a second option both servers would be given the certificate of the metrics server.
\<close>

lemma spare_capacity_mixes_certificates:
  "case fst (configure sample_process (\<lambda>n. 2 * n)
      (default_settings\<lparr>webhookCertPath := ''/w'', metricsCertPath := ''/m''\<rparr>) []) of
     Inl code \<Rightarrow> False
   | Inr (opts, mw, ww) \<Rightarrow> mw = Some 1 \<and> ww = Some 0 \<and>
       mo_webhook_tls opts = [disableHTTP2, certificateFrom 1] \<and>
       mo_metrics_tls opts = [disableHTTP2, certificateFrom 1]"
  by code_simp

section \<open>Properties\<close>

text \<open>
  C37: Settings written as a command line, one flag with a value each, are read back as they are,
  whatever the values contain (an equals sign, dashes, nothing), whatever was set before them, and
  the parser goes on with the arguments that follow.
\<close>

theorem flags_roundtrip:
  "parse_flags F (render_settings st @ rest) (st0, w) = parse_flags F rest (st, w)"
proof -
  have "parse_flags F (render_settings st @ rest) (st0, w) = parse_flags F rest
    (st0\<lparr>metricsAddr := metricsAddr st, probeAddr := probeAddr st,
       enableLeaderElection := enableLeaderElection st, secureMetrics := secureMetrics st,
       webhookCertPath := webhookCertPath st, webhookCertName := webhookCertName st,
       webhookCertKey := webhookCertKey st, metricsCertPath := metricsCertPath st,
       metricsCertName := metricsCertName st, metricsCertKey := metricsCertKey st,
       enableHTTP2 := enableHTTP2 st\<rparr>, w)"
    by (simp add: render_settings_def parse_string_flags parse_bool_flags del: parse_flags.simps)
  also have "\<dots> = parse_flags F rest (st, w)"
    by (intro arg_cong [where f = "\<lambda>st. parse_flags F rest (st, w)"] settings.equality) simp_all
  finally show ?thesis .
qed



text \<open>
  C36: The process ends without an exit code only when the manager was started and stopped without an
  error; by then every part of the set-up was done: the manager, the index by which the pods of a
  resource are found, the controller, the certificate watchers that the flags ask for, the health
  and the readiness check.
\<close>

theorem starts_fully_set_up:
  assumes "run_process L grow args w = (Returned, w')" and "stages_contract L reached"
  shows "\<exists>st opts mw ww w0 w1 w2 w3. parse_flags (pl_flags L) args (default_settings, w0) = Inr (st, w1) \<and>
    configure L grow st w1 = (Inr (opts, mw, ww), w2) \<and>
    (\<forall>g\<in>{ManagerMade, PodIndex, ControllerBuilt, HealthCheck, ReadyCheck} \<union> Watching ` (set_option mw \<union> set_option ww). reached g w3) \<and>
    start_manager L w3 = (None, w')"
proof -
  obtain w0 where "process_main L grow args w0 = (Returned, w')"
    using assms(1) by (auto simp: run_process_def split: prod.splits bool.splits)
  then obtain st w1 opts mw ww w2 w4 where run: "parse_flags (pl_flags L) args (default_settings, w0) = Inr (st, w1)"
    "configure L grow st w1 = (Inr (opts, mw, ww), w2)" "run_steps (start_steps L opts mw ww) w4 = (Returned, w')"
    by (auto simp: process_main_def split: prod.splits sum.splits bool.splits)
  have "set (start_stages L opts mw ww) \<subseteq> manager_calls L"
    by (auto simp: start_stages_def manager_calls_def)
  from run_stages [OF assms(2) this run(3) [unfolded run_start_steps]] obtain w3 where
    w3: "run_steps [start_manager L] w3 = (Returned, w')" "\<forall>g\<in>fst ` set (start_stages L opts mw ww). reached g w3" by blast
  have "start_manager L w3 = (None, w')" using w3(1) by (auto split: prod.splits option.splits)
  moreover have "fst ` set (start_stages L opts mw ww) = {ManagerMade, PodIndex, ControllerBuilt, HealthCheck, ReadyCheck} \<union>
      Watching ` (set_option mw \<union> set_option ww)"
    by (cases mw; cases ww) (auto simp: start_stages_def map_filter_def image_image)
  ultimately show ?thesis using run w3(2) by metis
qed

theorem starts_fully_set_up_witness:
  "\<exists>w3. {''controller'', ''index'', ''healthz'', ''readyz''} \<subseteq> set w3 \<and> start_manager sample_process w3 =
     (None, [''client scheme'', ''batch.inplace.kubebuilder.io'', ''/certs/tls.crt'', ''manager'', ''index'', ''controller'',
        ''watch 2'', ''healthz'', ''readyz'', ''start''])"
proof -
  define reached where "reached = (\<lambda>g w. case g of ManagerMade \<Rightarrow> ''manager'' \<in> set w | PodIndex \<Rightarrow> ''index'' \<in> set w
    | ControllerBuilt \<Rightarrow> ''controller'' \<in> set w | Watching c \<Rightarrow> True
    | HealthCheck \<Rightarrow> ''healthz'' \<in> set w | ReadyCheck \<Rightarrow> ''readyz'' \<in> set w)"
  have "stages_contract sample_process reached"
    by (auto simp: stages_contract_def manager_calls_def sample_process_def logged_def reached_def split: stage.split)
  from starts_fully_set_up [OF sample_run this] show ?thesis
    unfolding reached_def by fastforce
qed

end
