(* ===== verification/Deep_Copy.thy ===== *)
theory Deep_Copy
  imports K8s_Types
begin

text \<open>
  \<open>api/v1/zz_generated.deepcopy.go\<close>: the generated copies of the resource types, on an explicit memory.
  The rest of the development works with values, which nothing can change behind the back of who
  holds them; this theory shows that a deep copy is one: equal to the original and independent of it.
\<close>

section \<open>Memory\<close>

text \<open>
  Structs as the Go types lay them out: a pointer is an address (\<open>None\<close> for \<open>nil\<close>), a slice the address
  of its array, a struct of another package an opaque value \<open>'f\<close> that may hold addresses itself.
\<close>

record 'f spec_obj =
  so_Replicas :: "nat option"
  so_Selector :: "nat option"
  so_Template :: 'f
  so_Strategy :: 'f
  so_MinReadySeconds :: int32
  so_RevisionHistoryLimit :: "nat option"
  so_Paused :: bool
  so_ProgressDeadlineSeconds :: "nat option"

record status_obj =
  to_ObservedGeneration :: int64
  to_Replicas :: int32
  to_UpdatedReplicas :: int32
  to_ReadyReplicas :: int32
  to_AvailableReplicas :: int32
  to_UnavailableReplicas :: int32
  to_TerminatingReplicas :: "nat option"
  to_Conditions :: "nat option"
  to_CollisionCount :: "nat option"
  to_UpdateRevision :: string
  to_CurrentRevision :: string

record 'f inplaceu_obj =
  io_TypeMeta :: "string \<times> string"
  io_ObjectMeta :: 'f
  io_Spec :: "'f spec_obj"
  io_Status :: status_obj

record 'f list_obj =
  lo_TypeMeta :: "string \<times> string"
  lo_ListMeta :: 'f
  lo_Items :: "nat option"

text \<open>A cell holds what a pointer or a slice points to; other packages have cells \<open>'c\<close> of their own.\<close>

datatype ('f, 'c) cell =
    Int32Cell int32
  | SelectorCell 'f
  | ConditionsCell "'f list"
  | ItemsCell "'f inplaceu_obj list"
  | OtherCell 'c

record ('f, 'c) memory =
  cells :: "nat \<Rightarrow> ('f, 'c) cell option"
  lim :: nat

definition new_cell :: "('f, 'c) memory \<Rightarrow> nat \<times> ('f, 'c) memory" where
  "new_cell h = (lim h, h\<lparr>lim := lim h + 1\<rparr>)"

definition put_cell :: "nat \<Rightarrow> ('f, 'c) cell \<Rightarrow> ('f, 'c) memory \<Rightarrow> ('f, 'c) memory" where
  "put_cell a x h = h\<lparr>cells := (cells h)(a := Some x)\<rparr>"

text \<open>Reading through a pointer of a given type; a Go pointer always points to a cell of its type.\<close>

definition int32_at :: "('f, 'c) memory \<Rightarrow> nat \<Rightarrow> int32" where
  "int32_at h a = (case cells h a of Some (Int32Cell n) \<Rightarrow> n | _ \<Rightarrow> 0)"

definition selector_at :: "'f \<Rightarrow> ('f, 'c) memory \<Rightarrow> nat \<Rightarrow> 'f" where
  "selector_at zero h a = (case cells h a of Some (SelectorCell f) \<Rightarrow> f | _ \<Rightarrow> zero)"

definition conditions_at :: "('f, 'c) memory \<Rightarrow> nat \<Rightarrow> 'f list" where
  "conditions_at h a = (case cells h a of Some (ConditionsCell fs) \<Rightarrow> fs | _ \<Rightarrow> [])"

definition items_at :: "('f, 'c) memory \<Rightarrow> nat \<Rightarrow> 'f inplaceu_obj list" where
  "items_at h a = (case cells h a of Some (ItemsCell xs) \<Rightarrow> xs | _ \<Rightarrow> [])"

section \<open>Copying\<close>

text \<open>
  The types of other packages that have a \<open>DeepCopyInto\<close> of their own, with the memory a value of
  them reaches; \<open>zero_foreign\<close> is the zero value.
\<close>

datatype foreign_type =
    ObjectMeta | ListMeta | LabelSelector | PodTemplateSpec | DeploymentStrategy | DeploymentCondition

record ('f, 'c) foreign =
  copy_foreign :: "foreign_type \<Rightarrow> 'f \<Rightarrow> ('f, 'c) memory \<Rightarrow> 'f \<times> ('f, 'c) memory"
  foreign_reach :: "('f, 'c) memory \<Rightarrow> 'f \<Rightarrow> nat set"
  zero_foreign :: 'f

text \<open>
  The shape of the generated code for a pointer, \<open>*out = new(T)\<close> followed by a copy of what it points
  to, and for a slice, \<open>make\<close> followed by a copy of every element.
\<close>

definition copy_pointer ::
  "(('f, 'c) memory \<Rightarrow> nat \<Rightarrow> 'a) \<Rightarrow> ('a \<Rightarrow> ('f, 'c) cell) \<Rightarrow> ('a \<Rightarrow> ('f, 'c) memory \<Rightarrow> 'a \<times> ('f, 'c) memory) \<Rightarrow>
     nat option \<Rightarrow> ('f, 'c) memory \<Rightarrow> nat option \<times> ('f, 'c) memory" where
  "copy_pointer read cell copy p h =
     (case p of
        None \<Rightarrow> (None, h)
      | Some a \<Rightarrow>
          (case new_cell h of (q, h) \<Rightarrow>
            (case copy (read h a) h of (y, h) \<Rightarrow> (Some q, put_cell q (cell y) h))))"

fun copy_elements ::
  "('a \<Rightarrow> ('f, 'c) memory \<Rightarrow> 'a \<times> ('f, 'c) memory) \<Rightarrow> 'a list \<Rightarrow> ('f, 'c) memory \<Rightarrow> 'a list \<times> ('f, 'c) memory" where
  "copy_elements copy [] h = ([], h)"
| "copy_elements copy (x # xs) h =
     (case copy x h of (y, h) \<Rightarrow> (case copy_elements copy xs h of (ys, h) \<Rightarrow> (y # ys, h)))"

definition copy_int32 :: "nat option \<Rightarrow> ('f, 'c) memory \<Rightarrow> nat option \<times> ('f, 'c) memory" where
  "copy_int32 = copy_pointer int32_at Int32Cell Pair"

text \<open>\<open>*out = *in\<close>, and then every field that holds addresses.\<close>

definition InplaceuSpec_DeepCopyInto ::
  "('f, 'c) foreign \<Rightarrow> 'f spec_obj \<Rightarrow> ('f, 'c) memory \<Rightarrow> 'f spec_obj \<times> ('f, 'c) memory" where
  "InplaceuSpec_DeepCopyInto F inp h =
     (let (replicas, h) = copy_int32 (so_Replicas inp) h;
          (selector, h) = copy_pointer (selector_at (zero_foreign F)) SelectorCell (copy_foreign F LabelSelector)
            (so_Selector inp) h;
          (template, h) = copy_foreign F PodTemplateSpec (so_Template inp) h;
          (strategy, h) = copy_foreign F DeploymentStrategy (so_Strategy inp) h;
          (limit, h) = copy_int32 (so_RevisionHistoryLimit inp) h;
          (deadline, h) = copy_int32 (so_ProgressDeadlineSeconds inp) h
      in (inp\<lparr>so_Replicas := replicas, so_Selector := selector, so_Template := template,
             so_Strategy := strategy, so_RevisionHistoryLimit := limit,
             so_ProgressDeadlineSeconds := deadline\<rparr>, h))"

definition InplaceuStatus_DeepCopyInto ::
  "('f, 'c) foreign \<Rightarrow> status_obj \<Rightarrow> ('f, 'c) memory \<Rightarrow> status_obj \<times> ('f, 'c) memory" where
  "InplaceuStatus_DeepCopyInto F inp h =
     (let (terminating, h) = copy_int32 (to_TerminatingReplicas inp) h;
          (conditions, h) = copy_pointer conditions_at ConditionsCell
            (copy_elements (copy_foreign F DeploymentCondition)) (to_Conditions inp) h;
          (collisions, h) = copy_int32 (to_CollisionCount inp) h
      in (inp\<lparr>to_TerminatingReplicas := terminating, to_Conditions := conditions,
             to_CollisionCount := collisions\<rparr>, h))"

definition Inplaceu_DeepCopyInto ::
  "('f, 'c) foreign \<Rightarrow> 'f inplaceu_obj \<Rightarrow> ('f, 'c) memory \<Rightarrow> 'f inplaceu_obj \<times> ('f, 'c) memory" where
  "Inplaceu_DeepCopyInto F inp h =
     (let (meta, h) = copy_foreign F ObjectMeta (io_ObjectMeta inp) h;
          (spec, h) = InplaceuSpec_DeepCopyInto F (io_Spec inp) h;
          (status, h) = InplaceuStatus_DeepCopyInto F (io_Status inp) h
      in (inp\<lparr>io_ObjectMeta := meta, io_Spec := spec, io_Status := status\<rparr>, h))"

definition InplaceuList_DeepCopyInto ::
  "('f, 'c) foreign \<Rightarrow> 'f list_obj \<Rightarrow> ('f, 'c) memory \<Rightarrow> 'f list_obj \<times> ('f, 'c) memory" where
  "InplaceuList_DeepCopyInto F inp h =
     (let (meta, h) = copy_foreign F ListMeta (lo_ListMeta inp) h;
          (items, h) = copy_pointer items_at ItemsCell (copy_elements (Inplaceu_DeepCopyInto F)) (lo_Items inp) h
      in (inp\<lparr>lo_ListMeta := meta, lo_Items := items\<rparr>, h))"

text \<open>\<open>DeepCopy\<close> of a pointer that may be \<open>nil\<close>; the struct it points to is a value here.\<close>

definition DeepCopy ::
  "('a \<Rightarrow> ('f, 'c) memory \<Rightarrow> 'a \<times> ('f, 'c) memory) \<Rightarrow> 'a option \<Rightarrow> ('f, 'c) memory \<Rightarrow> 'a option \<times> ('f, 'c) memory" where
  "DeepCopy copy_into inp h =
     (case inp of None \<Rightarrow> (None, h) | Some x \<Rightarrow> (case copy_into x h of (out, h) \<Rightarrow> (Some out, h)))"

definition Inplaceu_DeepCopy ::
  "('f, 'c) foreign \<Rightarrow> 'f inplaceu_obj option \<Rightarrow> ('f, 'c) memory \<Rightarrow> 'f inplaceu_obj option \<times> ('f, 'c) memory" where
  "Inplaceu_DeepCopy F = DeepCopy (Inplaceu_DeepCopyInto F)"

definition Inplaceu_DeepCopyObject ::
  "('f, 'c) foreign \<Rightarrow> 'f inplaceu_obj option \<Rightarrow> ('f, 'c) memory \<Rightarrow> 'f inplaceu_obj option \<times> ('f, 'c) memory" where
  "Inplaceu_DeepCopyObject F inp h =
     (case Inplaceu_DeepCopy F inp h of (Some c, h) \<Rightarrow> (Some c, h) | (None, h) \<Rightarrow> (None, h))"

definition InplaceuList_DeepCopy ::
  "('f, 'c) foreign \<Rightarrow> 'f list_obj option \<Rightarrow> ('f, 'c) memory \<Rightarrow> 'f list_obj option \<times> ('f, 'c) memory" where
  "InplaceuList_DeepCopy F = DeepCopy (InplaceuList_DeepCopyInto F)"

definition InplaceuList_DeepCopyObject ::
  "('f, 'c) foreign \<Rightarrow> 'f list_obj option \<Rightarrow> ('f, 'c) memory \<Rightarrow> 'f list_obj option \<times> ('f, 'c) memory" where
  "InplaceuList_DeepCopyObject F inp h =
     (case InplaceuList_DeepCopy F inp h of (Some c, h) \<Rightarrow> (Some c, h) | (None, h) \<Rightarrow> (None, h))"

definition InplaceuSpec_DeepCopy ::
  "('f, 'c) foreign \<Rightarrow> 'f spec_obj option \<Rightarrow> ('f, 'c) memory \<Rightarrow> 'f spec_obj option \<times> ('f, 'c) memory" where
  "InplaceuSpec_DeepCopy F = DeepCopy (InplaceuSpec_DeepCopyInto F)"

definition InplaceuStatus_DeepCopy ::
  "('f, 'c) foreign \<Rightarrow> status_obj option \<Rightarrow> ('f, 'c) memory \<Rightarrow> status_obj option \<times> ('f, 'c) memory" where
  "InplaceuStatus_DeepCopy F = DeepCopy (InplaceuStatus_DeepCopyInto F)"

section \<open>The value of an object\<close>

text \<open>
  What the values of other packages are in the rest of the development, and with it the resource that
  an object in memory stands for.
\<close>

record ('f, 'c) views =
  v_identity :: "('f, 'c) memory \<Rightarrow> 'f \<Rightarrow> string \<times> string \<times> string \<times> int64 \<times> time option \<times> str_map \<times> str_map"
  v_version :: "('f, 'c) memory \<Rightarrow> 'f \<Rightarrow> string"
  v_selector :: "('f, 'c) memory \<Rightarrow> 'f \<Rightarrow> label_selector"
  v_template :: "('f, 'c) memory \<Rightarrow> 'f \<Rightarrow> pod_template"
  v_strategy :: "('f, 'c) memory \<Rightarrow> 'f \<Rightarrow> deployment_strategy"
  v_condition :: "('f, 'c) memory \<Rightarrow> 'f \<Rightarrow> condition"

definition spec_value :: "('f, 'c) foreign \<Rightarrow> ('f, 'c) views \<Rightarrow> ('f, 'c) memory \<Rightarrow> 'f spec_obj \<Rightarrow> inplaceu_spec" where
  "spec_value F V h s =
     \<lparr>sp_replicas = map_option (int32_at h) (so_Replicas s),
      sp_selector = map_option (\<lambda>a. v_selector V h (selector_at (zero_foreign F) h a)) (so_Selector s),
      sp_template = v_template V h (so_Template s), sp_strategy = v_strategy V h (so_Strategy s),
      sp_min_ready_seconds = so_MinReadySeconds s,
      sp_revision_history_limit = map_option (int32_at h) (so_RevisionHistoryLimit s),
      sp_paused = so_Paused s,
      sp_progress_deadline_seconds = map_option (int32_at h) (so_ProgressDeadlineSeconds s)\<rparr>"

definition status_value :: "('f, 'c) views \<Rightarrow> ('f, 'c) memory \<Rightarrow> status_obj \<Rightarrow> inplaceu_status" where
  "status_value V h s =
     \<lparr>st_observed_generation = to_ObservedGeneration s, st_replicas = to_Replicas s,
      st_updated_replicas = to_UpdatedReplicas s, st_ready_replicas = to_ReadyReplicas s,
      st_available_replicas = to_AvailableReplicas s, st_unavailable_replicas = to_UnavailableReplicas s,
      st_terminating_replicas = map_option (int32_at h) (to_TerminatingReplicas s),
      st_conditions = (case to_Conditions s of None \<Rightarrow> [] | Some a \<Rightarrow> map (v_condition V h) (conditions_at h a)),
      st_collision_count = map_option (int32_at h) (to_CollisionCount s),
      st_update_revision = to_UpdateRevision s, st_current_revision = to_CurrentRevision s\<rparr>"

definition inplaceu_value :: "('f, 'c) foreign \<Rightarrow> ('f, 'c) views \<Rightarrow> ('f, 'c) memory \<Rightarrow> 'f inplaceu_obj \<Rightarrow> inplaceu" where
  "inplaceu_value F V h x =
     (case v_identity V h (io_ObjectMeta x) of (n, ns, uid, gen, del, lbls, anns) \<Rightarrow>
        \<lparr>iu_name = n, iu_namespace = ns, iu_uid = uid, iu_generation = gen, iu_deletion = del,
         iu_labels = lbls, iu_annotations = anns, iu_spec = spec_value F V h (io_Spec x),
         iu_status = status_value V h (io_Status x)\<rparr>)"

text \<open>The addresses that an object reaches.\<close>

definition pointer_reach :: "(('f, 'c) memory \<Rightarrow> nat \<Rightarrow> 'a) \<Rightarrow> (('f, 'c) memory \<Rightarrow> 'a \<Rightarrow> nat set) \<Rightarrow>
    ('f, 'c) memory \<Rightarrow> nat option \<Rightarrow> nat set" where
  "pointer_reach read reach h p = (case p of None \<Rightarrow> {} | Some a \<Rightarrow> insert a (reach h (read h a)))"

definition elements_reach :: "(('f, 'c) memory \<Rightarrow> 'a \<Rightarrow> nat set) \<Rightarrow> ('f, 'c) memory \<Rightarrow> 'a list \<Rightarrow> nat set" where
  "elements_reach reach h xs = (\<Union>x\<in>set xs. reach h x)"

definition no_reach :: "('f, 'c) memory \<Rightarrow> 'a \<Rightarrow> nat set" where
  "no_reach h x = {}"

definition spec_reach :: "('f, 'c) foreign \<Rightarrow> ('f, 'c) memory \<Rightarrow> 'f spec_obj \<Rightarrow> nat set" where
  "spec_reach F h s =
     pointer_reach int32_at no_reach h (so_Replicas s) \<union>
     (pointer_reach (selector_at (zero_foreign F)) (foreign_reach F) h (so_Selector s) \<union>
     (foreign_reach F h (so_Template s) \<union> (foreign_reach F h (so_Strategy s) \<union>
     (pointer_reach int32_at no_reach h (so_RevisionHistoryLimit s) \<union>
      pointer_reach int32_at no_reach h (so_ProgressDeadlineSeconds s)))))"

definition status_reach :: "('f, 'c) foreign \<Rightarrow> ('f, 'c) memory \<Rightarrow> status_obj \<Rightarrow> nat set" where
  "status_reach F h s =
     pointer_reach int32_at no_reach h (to_TerminatingReplicas s) \<union>
     (pointer_reach conditions_at (elements_reach (foreign_reach F)) h (to_Conditions s) \<union>
      pointer_reach int32_at no_reach h (to_CollisionCount s))"

definition inplaceu_reach :: "('f, 'c) foreign \<Rightarrow> ('f, 'c) memory \<Rightarrow> 'f inplaceu_obj \<Rightarrow> nat set" where
  "inplaceu_reach F h x =
     foreign_reach F h (io_ObjectMeta x) \<union> (spec_reach F h (io_Spec x) \<union> status_reach F h (io_Status x))"

definition list_reach :: "('f, 'c) foreign \<Rightarrow> ('f, 'c) memory \<Rightarrow> 'f list_obj \<Rightarrow> nat set" where
  "list_reach F h x = foreign_reach F h (lo_ListMeta x) \<union>
     pointer_reach items_at (elements_reach (inplaceu_reach F)) h (lo_Items x)"

section \<open>Copiers\<close>

text \<open>
  A copier is deep when it changes no cell there was, the copy reaches new cells only, and its value is
  that of the original; and what is reached and the value depend on the cells reached only.
\<close>

definition same_cells :: "nat set \<Rightarrow> ('f, 'c) memory \<Rightarrow> ('f, 'c) memory \<Rightarrow> bool" where
  "same_cells A h h' \<longleftrightarrow> (\<forall>a\<in>A. cells h' a = cells h a)"

definition grows :: "('f, 'c) memory \<Rightarrow> ('f, 'c) memory \<Rightarrow> bool" where
  "grows h h' \<longleftrightarrow> lim h \<le> lim h' \<and> same_cells {..<lim h} h h'"

definition deep_copier ::
  "('a \<Rightarrow> ('f, 'c) memory \<Rightarrow> 'a \<times> ('f, 'c) memory) \<Rightarrow> (('f, 'c) memory \<Rightarrow> 'a \<Rightarrow> nat set) \<Rightarrow>
     (('f, 'c) memory \<Rightarrow> 'a \<Rightarrow> 'v) \<Rightarrow> bool" where
  "deep_copier copy reach view \<longleftrightarrow>
     (\<forall>x h y h'. copy x h = (y, h') \<longrightarrow> reach h x \<subseteq> {..<lim h} \<longrightarrow>
        grows h h' \<and> reach h' y \<subseteq> {lim h..<lim h'} \<and> view h' y = view h x) \<and>
     (\<forall>x h h'. same_cells (reach h x) h h' \<longrightarrow> reach h' x = reach h x \<and> view h' x = view h x)"

lemma deep_copierD:
  assumes "deep_copier copy reach view"
  shows "copy x h = (y, h') \<Longrightarrow> reach h x \<subseteq> {..<lim h} \<Longrightarrow>
      grows h h' \<and> reach h' y \<subseteq> {lim h..<lim h'} \<and> view h' y = view h x"
    and "same_cells (reach h x) h h' \<Longrightarrow> reach h' x = reach h x \<and> view h' x = view h x"
  using assms unfolding deep_copier_def by blast+

lemma same_cells_mono: "same_cells A h h' \<Longrightarrow> B \<subseteq> A \<Longrightarrow> same_cells B h h'"
  by (auto simp: same_cells_def)

lemma grows_refl [simp]: "grows h h"
  by (simp add: grows_def same_cells_def)

lemma grows_trans: "grows h h' \<Longrightarrow> grows h' h'' \<Longrightarrow> grows h h''"
  by (auto simp: grows_def same_cells_def)

lemma grows_new: "grows h (snd (new_cell h))" "fst (new_cell h) = lim h" "lim (snd (new_cell h)) = lim h + 1"
  by (simp_all add: grows_def same_cells_def new_cell_def)

lemma put_cell_simps [simp]:
  "lim (put_cell a x h) = lim h" "cells (put_cell a x h) b = (if b = a then Some x else cells h b)"
  by (simp_all add: put_cell_def)

lemma copier_value: "deep_copier Pair no_reach (\<lambda>h x. x)"
  by (simp add: deep_copier_def no_reach_def)

lemma copier_pointer:
  assumes "deep_copier copy reach view"
    and read: "\<And>h h' a. cells h' a = cells h a \<Longrightarrow> read h' a = read h a"
    and cell: "\<And>h a x. cells h a = Some (cell x) \<Longrightarrow> read h a = x"
  shows "deep_copier (copy_pointer read cell copy) (pointer_reach read reach)
    (\<lambda>h p. map_option (\<lambda>a. view h (read h a)) p)"
  unfolding deep_copier_def
proof (intro conjI allI impI)
  fix p h q h'
  assume run: "copy_pointer read cell copy p h = (q, h')" and inside: "pointer_reach read reach h p \<subseteq> {..<lim h}"
  have "grows h h' \<and> pointer_reach read reach h' q \<subseteq> {lim h..<lim h'} \<and>
      map_option (\<lambda>a. view h' (read h' a)) q = map_option (\<lambda>a. view h (read h a)) p"
  proof (cases p)
    case None
    with run show ?thesis by (simp add: copy_pointer_def pointer_reach_def)
  next
    case (Some a)
    define h1 where "h1 = h\<lparr>lim := lim h + 1\<rparr>"
    have h1: "cells h1 = cells h" "lim h1 = lim h + 1" by (simp_all add: h1_def)
    have new: "new_cell h = (lim h, h1)" by (simp add: new_cell_def h1_def)
    obtain y h2 where copy: "copy (read h1 a) h1 = (y, h2)" by fastforce
    with run Some have res: "q = Some (lim h)" "h' = put_cell (lim h) (cell y) h2"
      by (simp_all add: copy_pointer_def new)
    have same: "read h1 a = read h a" by (rule read) (simp add: h1)
    have old: "same_cells (reach h (read h a)) h h1" by (simp add: same_cells_def h1)
    note before = deep_copierD(2) [OF assms(1) old]
    have "reach h1 (read h1 a) \<subseteq> {..<lim h1}"
      using inside before by (auto simp: Some pointer_reach_def same h1)
    from deep_copierD(1) [OF assms(1) copy this] have
      two: "grows h h2" "lim h < lim h2" "reach h2 y \<subseteq> {lim h + 1..<lim h2}" "view h2 y = view h (read h a)"
      using before same grows_trans [of h h1 h2] by (auto simp: h1 grows_def same_cells_def)
    have "same_cells (reach h2 y) h2 h'" using two(3) by (auto simp: same_cells_def res)
    note after = deep_copierD(2) [OF assms(1) this]
    have "read h' (lim h) = y" by (rule cell) (simp add: res)
    with two after show ?thesis
      by (auto simp: Some res grows_def same_cells_def pointer_reach_def)
  qed
  then show "grows h h'" "pointer_reach read reach h' q \<subseteq> {lim h..<lim h'}"
    "map_option (\<lambda>a. view h' (read h' a)) q = map_option (\<lambda>a. view h (read h a)) p" by simp_all
next
  fix p h h'
  assume same: "same_cells (pointer_reach read reach h p) h h'"
  show "pointer_reach read reach h' p = pointer_reach read reach h p"
    and "map_option (\<lambda>a. view h' (read h' a)) p = map_option (\<lambda>a. view h (read h a)) p"
    using same deep_copierD(2) [OF assms(1), of h _ h'] read [of h' _ h]
    by (cases p; simp add: pointer_reach_def same_cells_def)+
qed


lemma copier_elements:
  assumes "deep_copier copy reach view"
  shows "deep_copier (copy_elements copy) (elements_reach reach) (\<lambda>h. map (view h))"
  unfolding deep_copier_def
proof (intro conjI allI impI)
  note D = deep_copierD [OF assms]
  fix xs h ys h'
  assume run: "copy_elements copy xs h = (ys, h')" and inside: "elements_reach reach h xs \<subseteq> {..<lim h}"
  have "grows h h' \<and> elements_reach reach h' ys \<subseteq> {lim h..<lim h'} \<and> map (view h') ys = map (view h) xs"
    using run inside
  proof (induction xs arbitrary: h ys)
    case Nil
    then show ?case by (simp add: elements_reach_def)
  next
    case (Cons x xs)
    obtain y h1 where one: "copy x h = (y, h1)" by fastforce
    obtain zs where rest: "copy_elements copy xs h1 = (zs, h')" "ys = y # zs"
      using Cons.prems(1) one by (auto split: prod.splits)
    have in1: "reach h x \<subseteq> {..<lim h}" and inr: "\<And>z. z \<in> set xs \<Longrightarrow> reach h z \<subseteq> {..<lim h}"
      using Cons.prems(2) by (auto simp: elements_reach_def)
    note first = D(1) [OF one in1]
    have keep: "reach h1 z = reach h z \<and> view h1 z = view h z" if "z \<in> set xs" for z
      by (rule D(2), rule same_cells_mono [OF _ inr [OF that]]) (use first in \<open>simp add: grows_def\<close>)
    have "elements_reach reach h1 xs \<subseteq> {..<lim h1}"
      using keep inr first by (fastforce simp: elements_reach_def grows_def)
    note others = Cons.IH [OF rest(1) this]
    have "same_cells (reach h1 y) h1 h'"
      by (rule same_cells_mono [of "{..<lim h1}"]) (use others first in \<open>auto simp: grows_def\<close>)
    note stays = D(2) [OF this]
    have "map (view h1) xs = map (view h) xs" using keep by simp
    with first others stays rest(2) grows_trans [of h h1 h'] show ?case
      by (auto simp: elements_reach_def grows_def)
  qed
  then show "grows h h'" "elements_reach reach h' ys \<subseteq> {lim h..<lim h'}" "map (view h') ys = map (view h) xs"
    by simp_all
next
  note D = deep_copierD [OF assms]
  fix xs h h'
  assume same: "same_cells (elements_reach reach h xs) h h'"
  have each: "reach h' x = reach h x \<and> view h' x = view h x" if "x \<in> set xs" for x
    by (rule D(2), rule same_cells_mono [OF same]) (use that in \<open>auto simp: elements_reach_def\<close>)
  then show "elements_reach reach h' xs = elements_reach reach h xs" "map (view h') xs = map (view h) xs"
    by (simp_all add: elements_reach_def)
qed

text \<open>Two fields, one after the other.\<close>

definition copy_both ::
  "('a \<Rightarrow> ('f, 'c) memory \<Rightarrow> 'a \<times> ('f, 'c) memory) \<Rightarrow> ('b \<Rightarrow> ('f, 'c) memory \<Rightarrow> 'b \<times> ('f, 'c) memory) \<Rightarrow>
     'a \<times> 'b \<Rightarrow> ('f, 'c) memory \<Rightarrow> ('a \<times> 'b) \<times> ('f, 'c) memory" where
  "copy_both c1 c2 = (\<lambda>(x1, x2) h. case c1 x1 h of (y1, h) \<Rightarrow> (case c2 x2 h of (y2, h) \<Rightarrow> ((y1, y2), h)))"

lemma copier_both:
  assumes "deep_copier c1 r1 v1" and "deep_copier c2 r2 v2"
  shows "deep_copier (copy_both c1 c2) (\<lambda>h (x1, x2). r1 h x1 \<union> r2 h x2) (\<lambda>h (x1, x2). (v1 h x1, v2 h x2))"
  unfolding deep_copier_def
proof (intro conjI allI impI)
  note D1 = deep_copierD [OF assms(1)] and D2 = deep_copierD [OF assms(2)]
  fix x h y h'
  assume run: "copy_both c1 c2 x h = (y, h')" and inside: "(case x of (x1, x2) \<Rightarrow> r1 h x1 \<union> r2 h x2) \<subseteq> {..<lim h}"
  obtain x1 x2 where x: "x = (x1, x2)" by fastforce
  obtain y1 h1 where one: "c1 x1 h = (y1, h1)" by fastforce
  obtain y2 where two: "c2 x2 h1 = (y2, h')" "y = (y1, y2)"
    using run one by (auto simp: copy_both_def x split: prod.splits)
  have in1: "r1 h x1 \<subseteq> {..<lim h}" and in2: "r2 h x2 \<subseteq> {..<lim h}" using inside by (auto simp: x)
  note first = D1(1) [OF one in1]
  have "same_cells (r2 h x2) h h1" by (rule same_cells_mono [OF _ in2]) (use first in \<open>simp add: grows_def\<close>)
  note keep = D2(2) [OF this]
  have "r2 h1 x2 \<subseteq> {..<lim h1}" using keep in2 first by (fastforce simp: grows_def)
  note second = D2(1) [OF two(1) this]
  have "same_cells (r1 h1 y1) h1 h'"
    by (rule same_cells_mono [of "{..<lim h1}"]) (use first second in \<open>auto simp: grows_def\<close>)
  note stays = D1(2) [OF this]
  show "grows h h'" using first second grows_trans by blast
  show "(case y of (y1, y2) \<Rightarrow> r1 h' y1 \<union> r2 h' y2) \<subseteq> {lim h..<lim h'}"
    using first second stays by (auto simp: two(2) grows_def)
  show "(case y of (y1, y2) \<Rightarrow> (v1 h' y1, v2 h' y2)) = (case x of (x1, x2) \<Rightarrow> (v1 h x1, v2 h x2))"
    using first second stays keep by (simp add: x two(2))
next
  fix x h h'
  assume same: "same_cells (case x of (x1, x2) \<Rightarrow> r1 h x1 \<union> r2 h x2) h h'"
  obtain x1 x2 where x: "x = (x1, x2)" by fastforce
  have "same_cells (r1 h x1) h h'" "same_cells (r2 h x2) h h'"
    using same by (auto simp: x same_cells_def)
  from deep_copierD(2) [OF assms(1) this(1)] deep_copierD(2) [OF assms(2) this(2)]
  show "(case x of (x1, x2) \<Rightarrow> r1 h' x1 \<union> r2 h' x2) = (case x of (x1, x2) \<Rightarrow> r1 h x1 \<union> r2 h x2)"
    and "(case x of (x1, x2) \<Rightarrow> (v1 h' x1, v2 h' x2)) = (case x of (x1, x2) \<Rightarrow> (v1 h x1, v2 h x2))"
    by (simp_all add: x)
qed

text \<open>A struct whose fields with addresses are copied, and whose value is made of theirs and of the other fields.\<close>

lemma copier_struct:
  assumes "deep_copier copy reach view"
    and "\<And>x h. copy' x h = (case copy (parts x) h of (y, h) \<Rightarrow> (put x y, h))"
    and "\<And>x y. parts (put x y) = y" and "\<And>h x. reach' h x = reach h (parts x)"
    and "\<And>h x. view' h x = build x (view h (parts x))" and "\<And>x y v. build (put x y) v = build x v"
  shows "deep_copier copy' reach' view'"
  using assms(1) unfolding deep_copier_def assms(2,4,5)
  by (auto split: prod.splits simp: assms(3,6))


section \<open>The generated functions\<close>

text \<open>The functions of the other packages are deep copiers, as their documentation promises.\<close>

definition foreign_contract :: "('f, 'c) foreign \<Rightarrow> ('f, 'c) views \<Rightarrow> bool" where
  "foreign_contract F V \<longleftrightarrow>
     deep_copier (copy_foreign F ObjectMeta) (foreign_reach F) (v_identity V) \<and>
     deep_copier (copy_foreign F ListMeta) (foreign_reach F) (v_version V) \<and>
     deep_copier (copy_foreign F LabelSelector) (foreign_reach F) (v_selector V) \<and>
     deep_copier (copy_foreign F PodTemplateSpec) (foreign_reach F) (v_template V) \<and>
     deep_copier (copy_foreign F DeploymentStrategy) (foreign_reach F) (v_strategy V) \<and>
     deep_copier (copy_foreign F DeploymentCondition) (foreign_reach F) (v_condition V)"

lemma copier_int32: "deep_copier copy_int32 (pointer_reach int32_at no_reach) (\<lambda>h. map_option (int32_at h))"
  unfolding copy_int32_def by (rule copier_pointer [OF copier_value]) (simp_all add: int32_at_def)

lemma copier_selector:
  assumes "foreign_contract F V"
  shows "deep_copier (copy_pointer (selector_at (zero_foreign F)) SelectorCell (copy_foreign F LabelSelector))
    (pointer_reach (selector_at (zero_foreign F)) (foreign_reach F))
    (\<lambda>h. map_option (\<lambda>a. v_selector V h (selector_at (zero_foreign F) h a)))"
  by (rule copier_pointer) (use assms in \<open>simp_all add: foreign_contract_def selector_at_def\<close>)

lemma copier_conditions:
  assumes "foreign_contract F V"
  shows "deep_copier (copy_pointer conditions_at ConditionsCell (copy_elements (copy_foreign F DeploymentCondition)))
    (pointer_reach conditions_at (elements_reach (foreign_reach F)))
    (\<lambda>h. map_option (\<lambda>a. map (v_condition V h) (conditions_at h a)))"
  by (rule copier_pointer [OF copier_elements]) (use assms in \<open>simp_all add: foreign_contract_def conditions_at_def\<close>)

lemma copier_spec:
  assumes "foreign_contract F V"
  shows "deep_copier (InplaceuSpec_DeepCopyInto F) (spec_reach F) (spec_value F V)"
proof -
  from assms have F: "deep_copier (copy_foreign F PodTemplateSpec) (foreign_reach F) (v_template V)"
    "deep_copier (copy_foreign F DeploymentStrategy) (foreign_reach F) (v_strategy V)"
    by (simp_all add: foreign_contract_def)
  note parts = copier_both [OF copier_int32 copier_both [OF copier_selector [OF assms]
    copier_both [OF F(1) copier_both [OF F(2) copier_both [OF copier_int32 copier_int32]]]]]
  show ?thesis
    by (rule copier_struct [OF parts, where
          parts = "\<lambda>s. (so_Replicas s, so_Selector s, so_Template s, so_Strategy s, so_RevisionHistoryLimit s,
            so_ProgressDeadlineSeconds s)"
          and put = "\<lambda>s (a, b, c, d, e, f). s\<lparr>so_Replicas := a, so_Selector := b, so_Template := c,
            so_Strategy := d, so_RevisionHistoryLimit := e, so_ProgressDeadlineSeconds := f\<rparr>"
          and build = "\<lambda>s (a, b, c, d, e, f). \<lparr>sp_replicas = a, sp_selector = b, sp_template = c,
            sp_strategy = d, sp_min_ready_seconds = so_MinReadySeconds s, sp_revision_history_limit = e,
            sp_paused = so_Paused s, sp_progress_deadline_seconds = f\<rparr>"])
      (simp_all add: InplaceuSpec_DeepCopyInto_def copy_both_def spec_reach_def spec_value_def split: prod.split)
qed

lemma copier_status:
  assumes "foreign_contract F V"
  shows "deep_copier (InplaceuStatus_DeepCopyInto F) (status_reach F) (status_value V)"
proof -
  note parts = copier_both [OF copier_int32 copier_both [OF copier_conditions [OF assms] copier_int32]]
  show ?thesis
    by (rule copier_struct [OF parts, where
          parts = "\<lambda>s. (to_TerminatingReplicas s, to_Conditions s, to_CollisionCount s)"
          and put = "\<lambda>s (a, b, c). s\<lparr>to_TerminatingReplicas := a, to_Conditions := b, to_CollisionCount := c\<rparr>"
          and build = "\<lambda>s (a, b, c). \<lparr>st_observed_generation = to_ObservedGeneration s, st_replicas = to_Replicas s,
            st_updated_replicas = to_UpdatedReplicas s, st_ready_replicas = to_ReadyReplicas s,
            st_available_replicas = to_AvailableReplicas s, st_unavailable_replicas = to_UnavailableReplicas s,
            st_terminating_replicas = a, st_conditions = (case b of None \<Rightarrow> [] | Some cs \<Rightarrow> cs),
            st_collision_count = c, st_update_revision = to_UpdateRevision s,
            st_current_revision = to_CurrentRevision s\<rparr>"])
      (simp_all add: InplaceuStatus_DeepCopyInto_def copy_both_def status_reach_def status_value_def
        split: prod.split option.split)
qed

lemma copier_inplaceu:
  assumes "foreign_contract F V"
  shows "deep_copier (Inplaceu_DeepCopyInto F) (inplaceu_reach F) (inplaceu_value F V)"
proof -
  from assms have "deep_copier (copy_foreign F ObjectMeta) (foreign_reach F) (v_identity V)"
    by (simp add: foreign_contract_def)
  note parts = copier_both [OF this copier_both [OF copier_spec [OF assms] copier_status [OF assms]]]
  show ?thesis
    by (rule copier_struct [OF parts, where
          parts = "\<lambda>x. (io_ObjectMeta x, io_Spec x, io_Status x)"
          and put = "\<lambda>x (a, b, c). x\<lparr>io_ObjectMeta := a, io_Spec := b, io_Status := c\<rparr>"
          and build = "\<lambda>x ((n, ns, uid, gen, del, lbls, anns), b, c). \<lparr>iu_name = n, iu_namespace = ns, iu_uid = uid,
            iu_generation = gen, iu_deletion = del, iu_labels = lbls, iu_annotations = anns, iu_spec = b,
            iu_status = c\<rparr>"])
      (simp_all add: Inplaceu_DeepCopyInto_def copy_both_def inplaceu_reach_def inplaceu_value_def split: prod.split)
qed

definition list_value :: "('f, 'c) foreign \<Rightarrow> ('f, 'c) views \<Rightarrow> ('f, 'c) memory \<Rightarrow> 'f list_obj \<Rightarrow>
    (string \<times> string) \<times> string \<times> inplaceu list option" where
  "list_value F V h x = (lo_TypeMeta x, v_version V h (lo_ListMeta x),
     map_option (\<lambda>a. map (inplaceu_value F V h) (items_at h a)) (lo_Items x))"

lemma copier_list:
  assumes "foreign_contract F V"
  shows "deep_copier (InplaceuList_DeepCopyInto F) (list_reach F) (list_value F V)"
proof -
  from assms have F: "deep_copier (copy_foreign F ListMeta) (foreign_reach F) (v_version V)"
    by (simp add: foreign_contract_def)
  have "deep_copier (copy_pointer items_at ItemsCell (copy_elements (Inplaceu_DeepCopyInto F)))
      (pointer_reach items_at (elements_reach (inplaceu_reach F)))
      (\<lambda>h. map_option (\<lambda>a. map (inplaceu_value F V h) (items_at h a)))"
    by (rule copier_pointer [OF copier_elements [OF copier_inplaceu [OF assms]]]) (simp_all add: items_at_def)
  note parts = copier_both [OF F this]
  show ?thesis
    by (rule copier_struct [OF parts, where
          parts = "\<lambda>x. (lo_ListMeta x, lo_Items x)"
          and put = "\<lambda>x (a, b). x\<lparr>lo_ListMeta := a, lo_Items := b\<rparr>"
          and build = "\<lambda>x (a, b). (lo_TypeMeta x, a, b)"])
      (simp_all add: InplaceuList_DeepCopyInto_def copy_both_def list_reach_def list_value_def split: prod.split)
qed

text \<open>What every deep copier gives: an equal value, and writes to one object that the other does not see.\<close>

lemma copies_apart:
  assumes "deep_copier copy reach view" and "copy x h = (y, h')" and "reach h x \<subseteq> {..<lim h}"
  shows "view h' y = view h x \<and> view h' x = view h x \<and> reach h' x \<inter> reach h' y = {} \<and>
    (\<forall>a\<in>reach h' y. \<forall>c. view (put_cell a c h') x = view h x) \<and>
    (\<forall>a\<in>reach h' x. \<forall>c. view (put_cell a c h') y = view h x)"
proof -
  note D = deep_copierD [OF assms(1)]
  note copied = D(1) [OF assms(2,3)]
  have "same_cells (reach h x) h h'"
    by (rule same_cells_mono [OF _ assms(3)]) (use copied in \<open>simp add: grows_def\<close>)
  note orig = D(2) [OF this]
  have apart: "reach h' x \<inter> reach h' y = {}" using copied orig assms(3) by fastforce
  have "view (put_cell a c h') z = view h' z" if "a \<notin> reach h' z" for a c z
    by (rule D(2) [THEN conjunct2]) (use that in \<open>auto simp: same_cells_def\<close>)
  moreover have "a \<notin> reach h' x" if "a \<in> reach h' y" for a using apart that by blast
  moreover have "a \<notin> reach h' y" if "a \<in> reach h' x" for a using apart that by blast
  ultimately show ?thesis using copied orig apart by simp
qed

lemma copier_view: "deep_copier copy reach view \<Longrightarrow> deep_copier copy reach (\<lambda>h x. g (view h x))"
  unfolding deep_copier_def by metis

section \<open>A concrete memory\<close>

text \<open>Values of other packages as pointers to text.\<close>

definition text_at :: "(nat option, string) memory \<Rightarrow> nat \<Rightarrow> string" where
  "text_at h a = (case cells h a of Some (OtherCell t) \<Rightarrow> t | _ \<Rightarrow> [])"

definition text_of :: "(nat option, string) memory \<Rightarrow> nat option \<Rightarrow> string" where
  "text_of h p = (case p of None \<Rightarrow> [] | Some a \<Rightarrow> text_at h a)"

definition sample_foreign :: "(nat option, string) foreign" where
  "sample_foreign = \<lparr>copy_foreign = (\<lambda>ty. copy_pointer text_at OtherCell Pair),
     foreign_reach = pointer_reach text_at no_reach, zero_foreign = None\<rparr>"

definition sample_views :: "(nat option, string) views" where
  "sample_views =
     \<lparr>v_identity = (\<lambda>h p. (text_of h p, [], [], 0, None, None, None)), v_version = text_of, v_selector = text_of,
      v_template = (\<lambda>h p. \<lparr>tpl_labels = None, tpl_annotations = None,
        tpl_containers = [\<lparr>ct_name = ''main'', ct_image = text_of h p\<rparr>]\<rparr>),
      v_strategy = (\<lambda>h p. \<lparr>ds_type = text_of h p, ds_rolling_update = None\<rparr>),
      v_condition = (\<lambda>h p. \<lparr>cd_type = text_of h p, cd_status = [], cd_last_transition = 0, cd_message = Errorf []\<rparr>)\<rparr>"

lemma sample_foreign_contract: "foreign_contract sample_foreign sample_views"
proof -
  have "deep_copier (copy_pointer text_at OtherCell Pair) (pointer_reach text_at no_reach)
      (\<lambda>h. map_option (text_at h))"
    by (rule copier_pointer [OF copier_value]) (simp_all add: text_at_def)
  from copier_view [OF this, of "case_option [] (\<lambda>t. t)"]
  have "deep_copier (copy_pointer text_at OtherCell Pair) (pointer_reach text_at no_reach)
      (\<lambda>h p. case_option [] (\<lambda>t. t) (map_option (text_at h) p))" .
  moreover have "(\<lambda>h p. case_option [] (\<lambda>t. t) (map_option (text_at h) p)) = text_of"
    by (auto simp: text_of_def fun_eq_iff split: option.split)
  ultimately have as_text: "deep_copier (copy_pointer text_at OtherCell Pair) (pointer_reach text_at no_reach) text_of"
    by simp
  note views = copier_view [OF as_text, of "\<lambda>t. (t, [], [], 0, None, None, None)"]
    copier_view [OF as_text, of "\<lambda>t. \<lparr>tpl_labels = None, tpl_annotations = None,
      tpl_containers = [\<lparr>ct_name = ''main'', ct_image = t\<rparr>]\<rparr>"]
    copier_view [OF as_text, of "\<lambda>t. \<lparr>ds_type = t, ds_rolling_update = None\<rparr>"]
    copier_view [OF as_text, of "\<lambda>t. \<lparr>cd_type = t, cd_status = [], cd_last_transition = 0, cd_message = Errorf []\<rparr>"]
  show ?thesis
    by (simp add: foreign_contract_def sample_foreign_def sample_views_def as_text views)
qed

definition sample_memory :: "(nat option, string) memory" where
  "sample_memory = \<lparr>cells = [0 \<mapsto> Int32Cell 3, 1 \<mapsto> OtherCell ''web'', 2 \<mapsto> OtherCell ''nginx:1'',
     3 \<mapsto> ConditionsCell [Some 1]], lim = 4\<rparr>"

definition sample_object :: "nat option inplaceu_obj" where
  "sample_object =
     \<lparr>io_TypeMeta = ([], []), io_ObjectMeta = Some 1,
      io_Spec = \<lparr>so_Replicas = Some 0, so_Selector = None, so_Template = Some 2, so_Strategy = None,
        so_MinReadySeconds = 0, so_RevisionHistoryLimit = Some 0, so_Paused = False, so_ProgressDeadlineSeconds = None\<rparr>,
      io_Status = \<lparr>to_ObservedGeneration = 0, to_Replicas = 0, to_UpdatedReplicas = 0, to_ReadyReplicas = 0,
        to_AvailableReplicas = 0, to_UnavailableReplicas = 0, to_TerminatingReplicas = None,
        to_Conditions = Some 3, to_CollisionCount = None, to_UpdateRevision = [], to_CurrentRevision = []\<rparr>\<rparr>"

section \<open>Properties\<close>

text \<open>
  C34: A deep copy of a resource has the value of the original, the original keeps its value, and no write
  to memory that one of them reaches changes the value of the other: not to the number of replicas,
  the selector, the template, the strategy, the limits, the metadata, the conditions or the counts.
\<close>

theorem deep_copy_is_equal_and_independent:
  assumes "foreign_contract F V" and "Inplaceu_DeepCopyObject F (Some iu) h = (r, h')"
    and "inplaceu_reach F h iu \<subseteq> {..<lim h}"
  shows "\<exists>c. r = Some c \<and> inplaceu_value F V h' c = inplaceu_value F V h iu \<and>
    inplaceu_value F V h' iu = inplaceu_value F V h iu \<and>
    (\<forall>a\<in>inplaceu_reach F h' c. \<forall>x. inplaceu_value F V (put_cell a x h') iu = inplaceu_value F V h iu) \<and>
    (\<forall>a\<in>inplaceu_reach F h' iu. \<forall>x. inplaceu_value F V (put_cell a x h') c = inplaceu_value F V h iu)"
proof -
  obtain c where c: "Inplaceu_DeepCopyInto F iu h = (c, h')" "r = Some c"
    using assms(2) by (auto simp: Inplaceu_DeepCopyObject_def Inplaceu_DeepCopy_def DeepCopy_def split: prod.splits)
  from copies_apart [OF copier_inplaceu [OF assms(1)] c(1) assms(3)] c(2) show ?thesis by simp
qed


theorem deep_copy_is_equal_and_independent_witness:
  "\<exists>c h'. Inplaceu_DeepCopyObject sample_foreign (Some sample_object) sample_memory = (Some c, h') \<and>
     so_Replicas (io_Spec c) = Some 5 \<and>
     sp_replicas (iu_spec (inplaceu_value sample_foreign sample_views h' c)) = Some 3 \<and>
     (\<forall>x. inplaceu_value sample_foreign sample_views (put_cell 5 x h') sample_object =
        inplaceu_value sample_foreign sample_views sample_memory sample_object)"
proof -
  let ?run = "Inplaceu_DeepCopyObject sample_foreign (Some sample_object) sample_memory"
  have "inplaceu_reach sample_foreign sample_memory sample_object \<subseteq> {..<lim sample_memory}"
    by (auto simp: inplaceu_reach_def spec_reach_def status_reach_def sample_object_def sample_memory_def
        sample_foreign_def pointer_reach_def elements_reach_def no_reach_def conditions_at_def text_at_def)
  from deep_copy_is_equal_and_independent [OF sample_foreign_contract surjective_pairing this]
  obtain c where c: "fst ?run = Some c"
    "inplaceu_value sample_foreign sample_views (snd ?run) c = inplaceu_value sample_foreign sample_views sample_memory sample_object"
    "\<forall>a\<in>inplaceu_reach sample_foreign (snd ?run) c. \<forall>x.
       inplaceu_value sample_foreign sample_views (put_cell a x (snd ?run)) sample_object =
       inplaceu_value sample_foreign sample_views sample_memory sample_object" by blast
  have "so_Replicas (io_Spec (the (fst ?run))) = Some 5" by code_simp
  then have five: "so_Replicas (io_Spec c) = Some 5" by (simp add: c(1))
  then have "5 \<in> inplaceu_reach sample_foreign (snd ?run) c"
    by (simp add: inplaceu_reach_def spec_reach_def pointer_reach_def)
  moreover have "sp_replicas (iu_spec (inplaceu_value sample_foreign sample_views sample_memory sample_object)) = Some 3"
    by code_simp
  ultimately show ?thesis using c five
    by (intro exI [of _ c] exI [of _ "snd ?run"]) (metis prod.collapse)
qed

end
