(* ===== verification/Spec2Isabelle.thy ===== *)
theory Spec2Isabelle
  imports Execution Manager_Setup Pass_Returns Convergence Pod_Adapters Json_Utils Process_Entry Deep_Copy
begin

text \<open>
  A verification development for the Inplaceu operator: a Kubernetes controller that keeps a set of
  pods at a revision and a number, updating pods in place where it can.

  \<^bold>\<open>The program.\<close>  A request for a resource comes from the work queue to \<open>Reconcile\<close>
  (\<open>internal/controller\<close>).  A pass reads the resource, waits while the scale expectations of the
  resource are unsatisfied, lists and claims its pods (\<open>internal/utils/refmgr\<close>), finds or writes the
  update revision (\<open>internal/utils/revision\<close>, \<open>internal/utils/history\<close>), waits until its copies of
  the pods are as new as its own writes, scales (\<open>internal/sync/inplaceu_scale.go\<close>), updates if it
  did not scale (\<open>internal/sync/inplaceu_update.go\<close>, \<open>internal/inplace_update\<close>), writes the status
  (\<open>internal/status\<close>) and cuts the revision history.  The watch on pods
  (\<open>internal/inplaceu_event_handler\<close>) settles the expectations and queues requests.  The two meet in
  three process-wide stores (\<open>internal/utils/expectations\<close>, \<open>internal/utils/requeueduration\<close>).

  \<^bold>\<open>The theories\<close>, in the order of their imports:

  \<^item> \<open>Prelude\<close>: Go panics as values (\<open>may_panic\<close>, \<open>bindP\<close>), string functions, Go maps with \<open>nil\<close>.
  \<^item> \<open>K8s_Types\<close>: \<open>api/v1/inplaceu_types.go\<close> and the fields used of the Kubernetes types.
  \<^item> \<open>External\<close>: the functions of other packages, as records of functions, with the documented
    behaviour some properties rely on.
  \<^item> \<open>Revision_Hash\<close>, \<open>Pod_Groups\<close>: \<open>internal/utils/inplaceu_utils.go\<close>, \<open>revision_adapter\<close>,
    \<open>specifieddelete\<close>.  \<open>Pod_Sorts\<close>: \<open>internal/utils/pod_sorts.go\<close>.
  \<^item> \<open>Scale_Expectations\<close>, \<open>RV_Expectations\<close>, \<open>Requeue_Duration\<close>: the three stores.
  \<^item> \<open>Cluster\<close>: the API server, clock and random source (\<open>api\<close>, functions on an abstract world), and
    the state \<open>sys\<close> of the process: the world, the stores and the events recorded so far.
  \<^item> \<open>Inplaceu_Core\<close>, \<open>Scale_Diff\<close>, \<open>Scale_Sync\<close>, \<open>Inplace_Update\<close>, \<open>Update_Sync\<close>: new pods, the
    numbers to create, delete and update, scaling, in-place update, the update step.
  \<^item> \<open>Pod_Adapters\<close>: \<open>internal/utils/podadapter\<close> and the constructors of the in-place control.
    \<open>Json_Utils\<close>: the JSON helpers of \<open>inplaceu_utils.go\<close>.
  \<^item> \<open>Status_Updater\<close>, \<open>Ref_Manager\<close>, \<open>Revision_History\<close>, \<open>Revision_Control\<close>.
  \<^item> \<open>Event_Handler\<close>: the four handlers of pod events and the requests they queue.
  \<^item> \<open>Controller\<close>: \<open>Reconcile\<close> and the other methods of \<open>InplaceuReconciler\<close>.
  \<^item> \<open>Pass_Returns\<close>: a pass returns, without a panic, whatever the state.
  \<^item> \<open>Convergence\<close>: the desired state and the progress towards it.
  \<^item> \<open>Manager_Setup\<close>: \<open>SetupWithManager\<close>, and what its pod index means for adoption.
  \<^item> \<open>Process_Entry\<close>: \<open>cmd/main.go\<close> and \<open>api/v1/groupversion_info.go\<close>: the flags, the TLS options as
    slices that share arrays, and the calls up to the start of the manager.
  \<^item> \<open>Deep_Copy\<close>: \<open>api/v1/zz_generated.deepcopy.go\<close> on an explicit memory: why values are a model of
    the objects that the code copies.
  \<^item> \<open>Execution\<close>: passes, watch events, restarts and everything else as a step relation, and the account of
    the changes the controller has not seen yet.
  \<^item> \<open>Sample\<close>, \<open>Sample_Cluster\<close>: concrete libraries and a concrete API server for the witnesses.

  \<^bold>\<open>State and effects.\<close>  An operation that changes state takes the state and returns it with its
  result.  What a Go function changes through a pointer (the status, the pods of the slice, a clone)
  is part of its result.  An error is the left of a sum or an option; a panic is the left of
  \<open>may_panic\<close>, so a nil dereference, an index or a slice bound out of range is a value.  Integers
  of fixed width are words, a Go \<open>int\<close> that counts list elements is an \<open>int\<close>, with a bounds theorem
  for the calculation of the scale (\<open>Scale_Diff.calculate_diffs_ranges\<close>).

  \<^bold>\<open>Loops.\<close>  The loops over slices are structural.  The two loops whose end depends on the
  environment are \<open>partial_function (option)\<close>, with theorems that they return: drawing an unused
  instance id (\<open>Scale_Sync.scale_returns\<close>) and finding a free revision name
  (\<open>Revision_History.create_revision_returns_requested_data\<close>).  With them, and with every panic of
  the components excluded, a whole pass returns (\<open>Pass_Returns.reconcile_returns\<close>).  \<open>retry.RetryOnConflict\<close> is an
  argument that runs a bounded number of attempts (\<open>retry_contract\<close>); the witnesses use three.

  \<^bold>\<open>Interfaces.\<close>  A locale states what one component relies on of another, and each is interpreted
  on the definitions of the component that provides it: the pending sets of the scale expectations,
  the newest write of the version expectations, the shortest wait of the duration store, revision
  hashes, the order of pods, the in-place update, and the watch that settles expectations.

  \<^bold>\<open>What is shown.\<close>  Per component: functional behaviour on every branch, refinement of the scale
  expectations to pending sets, bounds, termination, round trips and panics.  Of their composition:
  scaling in keeps the available pods within the budget and expects exactly what it did; a pass
  writes pods only when nothing is pending and its copies are current; and in this theory, over all
  interleavings of passes and events, the pending names are exactly the unseen changes, no pass acts
  on unseen changes, a resource is released as soon as its changes have been shown, and however stale
  its copy of the cluster, the controller never makes more pods than the replicas and the surge ask
  for.  A resource in its desired state is left alone, and scaling up makes strict progress towards
  it.  Of the process: the flags are read as they are written, the two servers get the TLS settings
  they ask for although their option slices share arrays, and a manager is started fully set up.  Of
  the copies: a deep copy is equal to the original and independent of it.  Hypotheses
  on other packages and on the server are named predicates (\<open>sort_contract\<close>, \<open>adoption_contract\<close>,
  \<open>env_contract\<close>, \<open>index_contract\<close>, and so on), each met by the concrete environment.

  \<^bold>\<open>Not modelled.\<close>  The constructors and interface types that only pass their arguments on, and logging.  A pass is
  one step: watch events that arrive during a pass are ordered before or after it, and the batches of
  concurrent creations run in some order.
\<close>

section \<open>Concrete executions\<close>

text \<open>A pass that creates a pod, the creation event of that pod, and another pass.\<close>

definition sample_event :: pod_event where
  "sample_event = CreateEvent (PodObject (owned_pod ''web-xxxxi'' ''1''))"

definition sample_watch :: "(nat, nat \<Rightarrow> nat) handler" where
  "sample_watch = sample_handler\<lparr>eh_sys := expect_scale ''ns/web'' Create ''web-xxxxi'' sample_sys\<rparr>"

definition after_event :: "(nat, nat \<Rightarrow> nat) handler" where
  "after_event = handler_Create sample_meta_lib sample_api sample_limiter True
     (PodObject (owned_pod ''web-xxxxi'' ''1'')) sample_watch"

lemma sample_key: "request_key (e_meta sample_env) sample_request = ''ns/web''"
  by code_simp

lemma sample_sys_clean: "pending_names (scale_exps sample_sys) k a = {||}"
  by (simp add: sample_sys_def NewScaleExpectations_def pending_names_def)

lemma sample_clean: "pending_names (scale_exps (eh_sys sample_handler)) k a = {||}"
  by (simp add: sample_handler_def sample_sys_clean)

lemma sample_shown: "event_shows (e_meta sample_env) sample_event ''ns/web'' Create = {|''web-xxxxi''|}"
proof -
  have "owner_key sample_meta_lib (owned_pod ''web-xxxxi'' ''1'') ''ns/web''" by code_simp
  moreover have "pod_deletion (owned_pod ''web-xxxxi'' ''1'') = None" by (simp add: owned_pod_def sample_pod_def)
  moreover have "pod_name (owned_pod ''web-xxxxi'' ''1'') = ''web-xxxxi''" by (simp add: owned_pod_def sample_pod_def)
  ultimately show ?thesis by (simp add: sample_event_def sample_env_def shown_def)
qed

lemma first_pass:
  obtains new h where "step sample_env sample_limiter sample_handler (Passed sample_request new) h"
    "event_objects (reason_of Create) new = [''web-xxxxi'']" "event_objects (reason_of Delete) new = []"
    "pending_names (scale_exps (eh_sys sample_watch)) = pending_names (scale_exps (eh_sys h))"
proof -
  obtain res s1 where run: "Reconcile sample_env sample_request sample_sys = Inr (res, s1)"
    and new: "event_objects ''SuccessfulCreate'' (events s1) = [''web-xxxxi'']"
      "event_objects ''SuccessfulDelete'' (events s1) = []"
    and "length (events s1) = 1"
    by (rule sample_pass)
  have none: "events sample_sys = []" by (simp add: sample_sys_def)
  have there: "\<not> vanished sample_env sample_request (world sample_sys)"
    by (simp add: vanished_def sample_env_def sample_api_def)
  let ?h = "sample_handler\<lparr>eh_sys := s1\<rparr>"
  have pass: "step sample_env sample_limiter sample_handler (Passed sample_request (events s1)) ?h"
    by (rule step.passed) (simp_all add: sample_handler_def run there none)
  have "pending_names (scale_exps s1) k a =
      (if k = ''ns/web'' then fset_of_list (event_objects (reason_of a) (events s1)) else {||})" for k a
    using step_account [OF pass, of k a] by (auto simp: sample_env_contract sample_key sample_clean)
  then have "pending_names (scale_exps (eh_sys sample_watch)) k a = pending_names (scale_exps (eh_sys ?h)) k a" for k a
    by (cases a) (auto simp: sample_watch_def pending_names_simps sample_sys_clean new)
  then have "pending_names (scale_exps (eh_sys sample_watch)) = pending_names (scale_exps (eh_sys ?h))"
    by (intro ext)
  from that [OF pass _ _ this] show thesis by (simp add: new)
qed

lemma first_execution:
  obtains new where
    "execution sample_env sample_limiter sample_handler [Passed sample_request new, Elsewhere, Shown sample_event] after_event"
    "event_objects (reason_of Create) new = [''web-xxxxi'']" "event_objects (reason_of Delete) new = []"
proof -
  obtain new h where pass: "step sample_env sample_limiter sample_handler (Passed sample_request new) h"
    and new: "event_objects (reason_of Create) new = [''web-xxxxi'']" "event_objects (reason_of Delete) new = []"
    and same: "pending_names (scale_exps (eh_sys sample_watch)) = pending_names (scale_exps (eh_sys h))"
    by (rule first_pass)
  have h: "h\<lparr>eh_sys := eh_sys sample_watch\<rparr> = sample_watch"
    using pass by (cases rule: step.cases) (simp_all add: sample_watch_def)
  from step.elsewhere [OF same] have other: "step sample_env sample_limiter h Elsewhere sample_watch"
    unfolding h .
  have event: "step sample_env sample_limiter sample_watch (Shown sample_event) after_event"
    by (rule step.shown [of _ _ _ True]) (simp add: after_event_def sample_event_def sample_env_def)
  from next_step [OF next_step [OF next_step [OF start pass] other] event] new
  show thesis by (intro that [of new]) simp_all
qed

section \<open>Properties\<close>

text \<open>
  C4: Whatever passes, watch events and other happenings interleave, the pending names of a key are exactly
  the changes of its history that are still unseen: the cache of expectations refines the account that
  is computed from the recorded events and the shown pods alone.
\<close>

theorem pending_names_are_the_unseen_changes:
  assumes "execution E Q h0 ls h" and "list_all (contract_for E) ls"
    and "\<And>k a. pending_names (scale_exps (eh_sys h0)) k a = {||}"
  shows "pending_names (scale_exps (eh_sys h)) k a = unseen (e_meta E) ls k a"
  by (simp add: execution_account [OF assms(1,2)] assms(3) unseen_def)

theorem pending_names_are_the_unseen_changes_witness:
  "\<exists>new h. execution sample_env sample_limiter sample_handler [Passed sample_request new] h \<and>
     unseen (e_meta sample_env) [Passed sample_request new] ''ns/web'' Create = {|''web-xxxxi''|} \<and>
     pending_names (scale_exps (eh_sys h)) ''ns/web'' Create = {|''web-xxxxi''|}"
proof -
  obtain new h where pass: "step sample_env sample_limiter sample_handler (Passed sample_request new) h"
    and new: "event_objects (reason_of Create) new = [''web-xxxxi'']"
    by (rule first_pass)
  from next_step [OF start pass]
  have run: "execution sample_env sample_limiter sample_handler [Passed sample_request new] h" by simp
  have unseen: "unseen (e_meta sample_env) [Passed sample_request new] ''ns/web'' Create = {|''web-xxxxi''|}"
    using new by (simp add: unseen_def sample_key)
  have "pending_names (scale_exps (eh_sys h)) ''ns/web'' Create = {|''web-xxxxi''|}"
    using pending_names_are_the_unseen_changes [OF run _ sample_clean] sample_env_contract unseen by simp
  with run unseen show ?thesis by blast
qed

text \<open>
  C1: The controller never acts on changes it has not seen.  Take two passes of an execution for the same
  key with anything in between.  If the second one does anything to pods, even if only to try, then
  every pod the first one created has been shown in between as created and every pod it deleted has
  been shown as deleted or as being deleted, or the resource itself was found gone, or the process
  was restarted, which is the one way to forget a change that has not been seen.
\<close>

theorem acts_only_on_seen_changes:
  assumes "execution E Q h0 (t1 @ Passed r1 new1 # t2 @ Passed r2 new2 # t3) h"
    and "list_all (contract_for E) (t1 @ Passed r1 new1 # t2 @ Passed r2 new2 # t3)"
    and "request_key (e_meta E) r1 = key" and "request_key (e_meta E) r2 = key" and "new2 \<noteq> []"
  shows "list_all (\<lambda>n. list_ex (settles (e_meta E) key a n) t2) (event_objects (reason_of a) new1)"
proof -
  have "(t1 @ Passed r1 new1 # t2) @ Passed r2 new2 # t3 = t1 @ Passed r1 new1 # t2 @ Passed r2 new2 # t3" by simp
  with assms(1) obtain h1 h2 where before: "execution E Q h0 (t1 @ Passed r1 new1 # t2) h1"
    and pass: "step E Q h1 (Passed r2 new2) h2" by (metis execution_split)
  from pass have "pending_names (scale_exps (eh_sys h1)) key a = {||}"
  proof (cases rule: step.cases)
    case (passed res s')
    have "env_contract E r2" using assms(2) by simp
    moreover have "events s' \<noteq> events (eh_sys h1)" using passed(4) assms(5) by auto
    ultimately show ?thesis
      using Reconcile_pending(1) [OF passed(2) assms(4) [symmetric]] by simp
  qed
  then have "n |\<notin>| fold (account (e_meta E) key a) (t1 @ Passed r1 new1 # t2)
      (pending_names (scale_exps (eh_sys h0)) key a)" for n
    using execution_account [OF before, of key a] assms(2) by simp
  then have "n \<in> set (changes (e_meta E) key a (Passed r1 new1)) \<Longrightarrow> list_ex (settles (e_meta E) key a n) t2" for n
    unfolding in_unseen by blast
  then show ?thesis by (simp add: list_all_iff assms(3))
qed

theorem acts_only_on_seen_changes_witness:
  "\<exists>new1. event_objects (reason_of Create) new1 = [''web-xxxxi''] \<and>
     list_all (\<lambda>n. list_ex (settles (e_meta sample_env) ''ns/web'' Create n) [Elsewhere, Shown sample_event])
       (event_objects (reason_of Create) new1)"
proof -
  obtain new1 where first: "execution sample_env sample_limiter sample_handler
      [Passed sample_request new1, Elsewhere, Shown sample_event] after_event"
    and new: "event_objects (reason_of Create) new1 = [''web-xxxxi'']"
    by (rule first_execution)
  let ?run = "Reconcile sample_env sample_request (eh_sys after_event)"
  have "case ?run of Inl p \<Rightarrow> False | Inr r \<Rightarrow> length (events (snd r)) = 1" by code_simp
  note facts = Inr_cases [OF this]
  obtain res s3 where pair: "projr ?run = (res, s3)" by (cases "projr ?run")
  have run: "?run = Inr (res, s3)" using conjunct1 [OF facts] unfolding pair .
  have acts: "length (events s3) = 1" using conjunct2 [OF facts] unfolding pair snd_conv .
  have none: "events (eh_sys after_event) = []" by code_simp
  have there: "\<not> vanished sample_env sample_request (world (eh_sys after_event))"
    by (simp add: vanished_def sample_env_def sample_api_def)
  have "step sample_env sample_limiter after_event (Passed sample_request (events s3)) (after_event\<lparr>eh_sys := s3\<rparr>)"
    by (rule step.passed [OF run there]) (simp add: none)
  from next_step [OF first this] have runs: "execution sample_env sample_limiter sample_handler
      ([] @ Passed sample_request new1 # [Elsewhere, Shown sample_event] @ Passed sample_request (events s3) # [])
      (after_event\<lparr>eh_sys := s3\<rparr>)" by simp
  have "list_all (\<lambda>n. list_ex (settles (e_meta sample_env) ''ns/web'' Create n) [Elsewhere, Shown sample_event])
      (event_objects (reason_of Create) new1)"
    by (rule acts_only_on_seen_changes [OF runs _ sample_key sample_key]) (use acts in \<open>auto simp: sample_env_contract\<close>)
  with new show ?thesis by blast
qed

text \<open>
  C11: And it acts again as soon as it has seen them: after any execution that starts with nothing pending,
  the check of the scale expectations passes exactly when every creation and every deletion recorded
  for the key has been settled by a later step.
\<close>

theorem changes_seen_release_the_resource:
  assumes "execution E Q h0 ls h" and "list_all (contract_for E) ls"
    and "\<And>k a. pending_names (scale_exps (eh_sys h0)) k a = {||}"
  shows "fst (fst (SatisfiedExpectations create_first now now' (scale_exps (eh_sys h)) key)) \<longleftrightarrow>
    (\<forall>t1 l t2 a n. ls = t1 @ l # t2 \<longrightarrow> n \<in> set (changes (e_meta E) key a l) \<longrightarrow>
       list_ex (settles (e_meta E) key a n) t2)"
proof -
  have "fst (fst (SatisfiedExpectations create_first now now' (scale_exps (eh_sys h)) key)) \<longleftrightarrow>
      (\<forall>a n. n |\<notin>| fold (account (e_meta E) key a) ls {||})"
    unfolding SatisfiedExpectations_fst execution_account [OF assms(1,2)] assms(3) by blast
  then show ?thesis unfolding in_unseen by blast
qed

theorem changes_seen_release_the_resource_witness:
  "fst (fst (SatisfiedExpectations True 0 0 (scale_exps (eh_sys after_event)) ''ns/web''))"
proof -
  obtain new where run: "execution sample_env sample_limiter sample_handler
      [Passed sample_request new, Elsewhere, Shown sample_event] after_event"
    and new: "event_objects (reason_of Create) new = [''web-xxxxi'']" "event_objects (reason_of Delete) new = []"
    by (rule first_execution)
  have "list_ex (settles (e_meta sample_env) ''ns/web'' a n) t2"
    if "[Passed sample_request new, Elsewhere, Shown sample_event] = t1 @ l # t2"
      "n \<in> set (changes (e_meta sample_env) ''ns/web'' a l)" for t1 l t2 a n
    using that new by (cases a; cases t1 rule: list.exhaust)
      (auto simp: sample_shown sample_key Cons_eq_append_conv split: if_splits)
  with changes_seen_release_the_resource [OF run _ sample_clean] show ?thesis
    by (simp add: sample_env_contract)
qed

text \<open>
  C2: Waiting for what it has done keeps the controller from doing it twice.  Let \<open>live\<close> be the pods that
  really exist for a resource when a pass creates pods, and let the copy of the server that the pass
  reads be no more behind than the watch: a live pod is among the pods the pass works on if every
  creation of it that earlier passes recorded has been shown, and complete when the process starts.  Then however far the copy is behind the
  server, the live pods and the new ones together are at most the replicas and the surge of the spec.
\<close>

theorem never_more_than_replicas_and_surge:
  assumes "execution E Q h0 ls h" and "list_all (contract_for E) ls"
    and "\<And>k a. pending_names (scale_exps (eh_sys h0)) k a = {||}"
    and "step E Q h (Passed req new) h'" and "env_contract E req" and "template_only E req"
    and "key = request_key (e_meta E) req"
    and "\<And>n. n \<in> live \<Longrightarrow>
      (\<forall>t1 l t2. ls = t1 @ l # t2 \<longrightarrow> n \<in> set (changes (e_meta E) key Create l) \<longrightarrow>
         list_ex (settles (e_meta E) key Create n) t2) \<Longrightarrow>
      n \<in> pod_name ` set (worked_on E req (eh_sys h))"
    and "made = event_objects (reason_of Create) new" and "made \<noteq> []"
  shows "\<exists>iu rs ru. fst (get_iu (e_api E) (req_namespace req) (req_name req) (world (eh_sys h))) = Inr iu \<and>
    sp_replicas (iu_spec iu) = Some rs \<and> ds_rolling_update (sp_strategy (iu_spec iu)) = Some ru \<and>
    int (card (live \<union> set made)) \<le> sint rs + max 0 (max_surge (e_pods E) ru (sint rs))"
proof -
  from assms(4) obtain res s' where run: "Reconcile E req (eh_sys h) = Inr (res, s')"
    and new: "new = drop (length (events (eh_sys h))) (events s')"
    by (cases rule: step.cases) auto
  have made: "made = new_objects ''SuccessfulCreate'' (eh_sys h) s'"
    by (simp add: assms(9) new new_objects_def)
  have "events s' \<noteq> events (eh_sys h)" using assms(10) by (auto simp: made new_objects_same)
  then have "pending_names (scale_exps (eh_sys h)) key Create = {||}"
    by (rule Reconcile_pending(1) [OF run assms(7,5)])
  then have "n |\<notin>| fold (account (e_meta E) key Create) ls {||}" for n
    by (simp add: execution_account [OF assms(1,2)] assms(3))
  then have "live \<subseteq> pod_name ` set (worked_on E req (eh_sys h))"
    using assms(8) unfolding in_unseen by blast
  then have "card (live \<union> set made) \<le> card (pod_name ` set (worked_on E req (eh_sys h)) \<union> set made)"
    by (intro card_mono) auto
  also have "\<dots> \<le> length (worked_on E req (eh_sys h)) + length made"
    using card_Un_le [of "pod_name ` set (worked_on E req (eh_sys h))" "set made"]
      card_image_le [of "set (worked_on E req (eh_sys h))" pod_name]
      card_length [of "worked_on E req (eh_sys h)"] card_length [of made] by simp
  finally have bound: "int (card (live \<union> set made)) \<le> int (length (worked_on E req (eh_sys h))) + int (length made)"
    by simp
  have made_some: "new_objects ''SuccessfulCreate'' (eh_sys h) s' \<noteq> []" using assms(10) by (simp add: made)
  obtain iu where "fst (get_iu (e_api E) (req_namespace req) (req_name req) (world (eh_sys h))) = Inr iu"
    "creates_within (e_pods E) iu (worked_on E req (eh_sys h)) made"
    unfolding made by (rule Reconcile_creates_within [OF run assms(5,6) made_some])
  with bound assms(10) show ?thesis unfolding creates_within_def by fastforce
qed

text \<open>One outdated pod, one replica and a surge of one: the pass creates a second pod.\<close>

definition crowded_env :: "nat env" where
  "crowded_env = sample_env\<lparr>e_api := sample_api\<lparr>list_owned_pods :=
     (\<lambda>ns uid w. (Inr [app_pod ''web-xxxxa'' [sample_owner]], Suc w))\<rparr>\<rparr>"

lemma crowded_contract: "env_contract crowded_env sample_request" "template_only crowded_env sample_request"
proof -
  have "identity_contract crowded_env f" if "\<And>p os. f (p\<lparr>pod_owners := os\<rparr>) = f p" "\<And>p rv. f (p\<lparr>pod_rv := rv\<rparr>) = f p"
    for f :: "pod \<Rightarrow> string"
    using that by (simp add: identity_contract_def crowded_env_def sample_env_def sample_api_def sample_ref_lib_def)
  then show "env_contract crowded_env sample_request"
    by (simp add: env_contract_def, simp add: crowded_env_def sample_env_def sample_pod_lib_sorts sample_api_def
        sample_iu_def sample_request_def iu_request_def ApplyRevision_def ApplyRevisionPatch_def sample_codec_def)
  show "template_only crowded_env sample_request"
    by (auto simp: template_only_def crowded_env_def sample_env_def sample_api_def sample_iu_def
        ApplyRevision_def ApplyRevisionPatch_def sample_codec_def sample_rolling_def)
qed

theorem never_more_than_replicas_and_surge_witness:
  "\<exists>made. made \<noteq> [] \<and> int (card ({''web-xxxxa''} \<union> set made)) \<le> 2"
proof -
  let ?run = "Reconcile crowded_env sample_request sample_sys"
  have "case ?run of Inl p \<Rightarrow> False | Inr r \<Rightarrow> length (event_objects ''SuccessfulCreate'' (events (snd r))) = 1"
    by code_simp
  note facts = Inr_cases [OF this]
  obtain res s1 where pair: "projr ?run = (res, s1)" by (cases "projr ?run")
  have run: "?run = Inr (res, s1)" using conjunct1 [OF facts] unfolding pair .
  have one: "length (event_objects ''SuccessfulCreate'' (events s1)) = 1"
    using conjunct2 [OF facts] unfolding pair snd_conv .
  let ?h = "sample_handler\<lparr>eh_sys := s1\<rparr>"
  have none: "events sample_sys = []" by (simp add: sample_sys_def)
  have there: "\<not> vanished crowded_env sample_request (world sample_sys)"
    by (simp add: vanished_def crowded_env_def sample_env_def sample_api_def)
  have pass: "step crowded_env sample_limiter sample_handler (Passed sample_request (events s1)) ?h"
    by (rule step.passed) (simp_all add: sample_handler_def run there none)
  have clean: "pending_names (scale_exps (eh_sys sample_handler)) k a = {||}" for k a
    by (simp add: sample_handler_def sample_sys_def NewScaleExpectations_def pending_names_def)
  have "map pod_name (worked_on crowded_env sample_request sample_sys) = [''web-xxxxa'']" by code_simp
  then have "''web-xxxxa'' \<in> set (map pod_name (worked_on crowded_env sample_request sample_sys))" by simp
  then have cached: "n \<in> pod_name ` set (worked_on crowded_env sample_request (eh_sys sample_handler))"
    if "n \<in> {''web-xxxxa''}" for n
    using that by (simp add: sample_handler_def)
  have made: "event_objects (reason_of Create) (events s1) \<noteq> []" using one by auto
  have "\<exists>iu rs ru. fst (get_iu (e_api crowded_env) (req_namespace sample_request) (req_name sample_request)
      (world (eh_sys sample_handler))) = Inr iu \<and> sp_replicas (iu_spec iu) = Some rs \<and>
      ds_rolling_update (sp_strategy (iu_spec iu)) = Some ru \<and>
      int (card ({''web-xxxxa''} \<union> set (event_objects (reason_of Create) (events s1)))) \<le>
        sint rs + max 0 (max_surge (e_pods crowded_env) ru (sint rs))"
    by (rule never_more_than_replicas_and_surge [OF start _ clean pass crowded_contract refl _ refl made])
      (simp, rule cached)
  then obtain iu rs ru where get: "fst (get_iu (e_api crowded_env) (req_namespace sample_request)
      (req_name sample_request) (world (eh_sys sample_handler))) = Inr iu"
    and spec: "sp_replicas (iu_spec iu) = Some rs" "ds_rolling_update (sp_strategy (iu_spec iu)) = Some ru"
    and bound: "int (card ({''web-xxxxa''} \<union> set (event_objects (reason_of Create) (events s1)))) \<le>
      sint rs + max 0 (max_surge (e_pods crowded_env) ru (sint rs))"
    by blast
  from get have "iu = sample_iu (Some 1) (sample_rolling 1 1)"
    by (simp add: crowded_env_def sample_env_def sample_api_def)
  with spec have "rs = 1" "ru = \<lparr>ru_max_unavailable = Some (IntVal 1), ru_max_surge = Some (IntVal 1)\<rparr>"
    by (simp_all add: sample_iu_def sample_rolling_def)
  with bound have "int (card ({''web-xxxxa''} \<union> set (event_objects (reason_of Create) (events s1)))) \<le> 2"
    by (simp add: max_surge_def crowded_env_def sample_env_def sample_pod_lib_def)
  with made show ?thesis by blast
qed

end
